theory Spec2Isabelle
  imports Complex_Main
begin

section \<open>Python exceptions\<close>

text \<open>
  The notebooks and the scripts they write are Python. An exception is a value with a
  class and a message; \<open>except C\<close> catches an exception whose class has \<open>C\<close> among its
  bases. The classes below are the built-in ones the code can meet, the error class of
  XGBoost (a \<open>ValueError\<close>) and the error classes of the Azure client.
\<close>

datatype exc_class =
    BaseException | Exception
  | KeyboardInterrupt | SystemExit | GeneratorExit
  | RuntimeError | NotImplementedError | RecursionError
  | ValueError | XGBoostError
  | LookupError | KeyError
  | AttributeError | TypeError | NameError
  | AzureError | HttpResponseError | ResourceNotFoundError

fun mro :: "exc_class \<Rightarrow> exc_class list" where
  "mro BaseException = [BaseException]"
| "mro Exception = [Exception, BaseException]"
| "mro KeyboardInterrupt = [KeyboardInterrupt, BaseException]"
| "mro SystemExit = [SystemExit, BaseException]"
| "mro GeneratorExit = [GeneratorExit, BaseException]"
| "mro RuntimeError = [RuntimeError, Exception, BaseException]"
| "mro NotImplementedError = [NotImplementedError, RuntimeError, Exception, BaseException]"
| "mro RecursionError = [RecursionError, RuntimeError, Exception, BaseException]"
| "mro ValueError = [ValueError, Exception, BaseException]"
| "mro XGBoostError = [XGBoostError, ValueError, Exception, BaseException]"
| "mro LookupError = [LookupError, Exception, BaseException]"
| "mro KeyError = [KeyError, LookupError, Exception, BaseException]"
| "mro AttributeError = [AttributeError, Exception, BaseException]"
| "mro TypeError = [TypeError, Exception, BaseException]"
| "mro NameError = [NameError, Exception, BaseException]"
| "mro AzureError = [AzureError, Exception, BaseException]"
| "mro HttpResponseError = [HttpResponseError, AzureError, Exception, BaseException]"
| "mro ResourceNotFoundError =
     [ResourceNotFoundError, HttpResponseError, AzureError, Exception, BaseException]"

datatype exn = Exn (exn_class: exc_class) (exn_str: string)

definition isinstance :: "exn \<Rightarrow> exc_class \<Rightarrow> bool" where
  "isinstance e c = (c \<in> set (mro (exn_class e)))"

section \<open>Values, arrays and frames\<close>

datatype pyval =
    PNone | PBool bool | PInt int | PFloat real | PStr string
  | PList "pyval list" | PDict "(string \<times> pyval) list"

text \<open>
  A two-dimensional \<open>numpy.ndarray\<close> of shape \<open>(length rows, ncols)\<close>. The number of
  columns is kept apart from the rows, so that the shape \<open>(0, K)\<close> is not lost.
\<close>

record ndarray =
  ncols :: nat
  rows :: "real list list"

definition wf_ndarray :: "ndarray \<Rightarrow> bool" where
  "wf_ndarray P = list_all (\<lambda>r. length r = ncols P) (rows P)"

text \<open>
  \<open>argmax\<close> along a row: the index of the first occurrence of the largest entry.
  The loop keeps the best index and the best value seen so far and replaces them
  only on a strictly larger entry.
\<close>

fun argmax_loop :: "real list \<Rightarrow> nat \<Rightarrow> nat \<Rightarrow> real \<Rightarrow> nat" where
  "argmax_loop [] i best_i best = best_i"
| "argmax_loop (x # xs) i best_i best =
     (if best < x then argmax_loop xs (Suc i) i x
      else argmax_loop xs (Suc i) best_i best)"

definition argmax_row :: "real list \<Rightarrow> nat" where
  "argmax_row r = (case r of [] \<Rightarrow> 0 | x # xs \<Rightarrow> argmax_loop xs 1 0 x)"

fun max_loop :: "real list \<Rightarrow> real \<Rightarrow> real" where
  "max_loop [] best = best"
| "max_loop (x # xs) best = (if best < x then max_loop xs x else max_loop xs best)"

definition max_row :: "real list \<Rightarrow> real" where
  "max_row r = (case r of [] \<Rightarrow> 0 | x # xs \<Rightarrow> max_loop xs x)"

text \<open>
  \<open>predictions.argmax(axis=1)\<close> and \<open>predictions.max(axis=1)\<close>: a reduction along an
  axis of length zero raises \<open>ValueError\<close>, whatever the number of rows.
\<close>

definition argmax_axis1 :: "ndarray \<Rightarrow> exn + nat list" where
  "argmax_axis1 P =
     (if ncols P = 0
      then Inl (Exn ValueError ''attempt to get argmax of an empty sequence'')
      else Inr (map argmax_row (rows P)))"

definition max_axis1 :: "ndarray \<Rightarrow> exn + real list" where
  "max_axis1 P =
     (if ncols P = 0
      then Inl (Exn ValueError
        ''zero-size array to reduction operation maximum which has no identity'')
      else Inr (map max_row (rows P)))"

text \<open>\<open>classes.tolist()\<close> and \<open>confidence.tolist()\<close>: Python ints and Python floats.\<close>

definition tolist_int :: "nat list \<Rightarrow> pyval list" where
  "tolist_int xs = map (\<lambda>i. PInt (int i)) xs"

definition tolist_float :: "real list \<Rightarrow> pyval list" where
  "tolist_float xs = map PFloat xs"

text \<open>
  A \<open>pandas.DataFrame\<close>: the length of its index and its columns in order, each a
  name with one cell per row.
\<close>

record DataFrame =
  index_len :: nat
  columns :: "(string \<times> pyval list) list"

text \<open>
  \<open>pd.DataFrame(data={name: list, ...})\<close>: the lists must have one length, which
  becomes the length of the index; otherwise the constructor raises \<open>ValueError\<close>.
\<close>

definition DataFrame_of_dict :: "(string \<times> pyval list) list \<Rightarrow> exn + DataFrame" where
  "DataFrame_of_dict d =
     (case d of
        [] \<Rightarrow> Inr \<lparr>index_len = 0, columns = []\<rparr>
      | (k, vs) # rest \<Rightarrow>
          if list_all (\<lambda>(k', vs'). length vs' = length vs) rest
          then Inr \<lparr>index_len = length vs, columns = d\<rparr>
          else Inl (Exn ValueError ''All arrays must be of the same length''))"

definition column_names :: "DataFrame \<Rightarrow> string list" where
  "column_names df = map fst (columns df)"

definition column :: "DataFrame \<Rightarrow> string \<Rightarrow> pyval list option" where
  "column df name = map_of (columns df) name"

text \<open>The cell of row \<open>i\<close> in the column \<open>name\<close>, when both exist.\<close>

definition cell :: "DataFrame \<Rightarrow> nat \<Rightarrow> string \<Rightarrow> pyval option" where
  "cell df i name =
     (case column df name of
        None \<Rightarrow> None
      | Some vs \<Rightarrow> if i < length vs then Some (vs ! i) else None)"

section \<open>The model wrapper\<close>

text \<open>
  \<^verbatim>\<open>
  class ModelWrapper(PythonModel):
      def load_context(self, context: PythonModelContext):
          from xgboost import XGBClassifier
          model_path = context.artifacts["model"]
          self.model = XGBClassifier(use_label_encoder=False)
          self.model.load_model(model_path)

      def predict(self, context: PythonModelContext, data):
          import pandas as pd
          predictions = self.model.predict_proba(data)
          classes = predictions.argmax(axis=1)
          confidence = predictions.max(axis=1)
          return pd.DataFrame(
              data={"class": classes.tolist(), "confidence": confidence.tolist()}
          )
  \<close>
  The classifier is XGBoost's, outside the repository: its type \<open>'m\<close> and its three
  operations are parameters. The classifier is an object with a state of its own: a
  method of it returns its outcome together with the classifier as the call leaves it,
  so that a call may change the classifier and answer differently the next time.
  \<open>self.model\<close> is \<open>None\<close> while the attribute is not set; otherwise it holds the
  classifier in its present state. Every method of the wrapper returns its outcome
  together with the instance as it leaves it.
\<close>

record 'm xgboost =
  XGBClassifier :: 'm
  load_model :: "'m \<Rightarrow> string \<Rightarrow> (exn + unit) \<times> 'm"
  predict_proba :: "'m \<Rightarrow> DataFrame \<Rightarrow> (exn + ndarray) \<times> 'm"

record PythonModelContext =
  artifacts :: "(string \<times> string) list"

record 'm ModelWrapper =
  model :: "'m option"

datatype pyobj = Str string | Frame DataFrame | NoneObj

definition load_context ::
  "'m xgboost \<Rightarrow> 'm ModelWrapper \<Rightarrow> PythonModelContext \<Rightarrow> (exn + pyobj) \<times> 'm ModelWrapper"
where
  "load_context xgb self context =
     (case map_of (artifacts context) ''model'' of
        None \<Rightarrow> (Inl (Exn KeyError ''model''), self)
      | Some model_path \<Rightarrow>
          (case load_model xgb (XGBClassifier xgb) model_path of
             (Inl e, m) \<Rightarrow> (Inl e, self\<lparr>model := Some m\<rparr>)
           | (Inr u, m) \<Rightarrow> (Inr NoneObj, self\<lparr>model := Some m\<rparr>)))"

definition predict ::
  "'m xgboost \<Rightarrow> 'm ModelWrapper \<Rightarrow> PythonModelContext \<Rightarrow> DataFrame
     \<Rightarrow> (exn + pyobj) \<times> 'm ModelWrapper"
where
  "predict xgb self context batch =
     (case model self of
        None \<Rightarrow>
          (Inl (Exn AttributeError ''ModelWrapper object has no attribute model''), self)
      | Some m \<Rightarrow>
          (case predict_proba xgb m batch of
             (Inl e, m') \<Rightarrow> (Inl e, self\<lparr>model := Some m'\<rparr>)
           | (Inr predictions, m') \<Rightarrow>
               (case argmax_axis1 predictions of
                  Inl e \<Rightarrow> (Inl e, self\<lparr>model := Some m'\<rparr>)
                | Inr classes \<Rightarrow>
                    (case max_axis1 predictions of
                       Inl e \<Rightarrow> (Inl e, self\<lparr>model := Some m'\<rparr>)
                     | Inr confidence \<Rightarrow>
                         (case DataFrame_of_dict
                                 [(''class'', tolist_int classes),
                                  (''confidence'', tolist_float confidence)] of
                            Inl e \<Rightarrow> (Inl e, self\<lparr>model := Some m'\<rparr>)
                          | Inr df \<Rightarrow> (Inr (Frame df), self\<lparr>model := Some m'\<rparr>))))))"

section \<open>JSON text\<close>

text \<open>
  \<open>str\<close> of a Python int: decimal digits, with a minus sign when negative.
\<close>

definition digit_char :: "nat \<Rightarrow> char" where
  "digit_char d = ''0123456789'' ! d"

fun str_nat :: "nat \<Rightarrow> string" where
  "str_nat n = (if n < 10 then [digit_char n] else str_nat (n div 10) @ [digit_char (n mod 10)])"

declare str_nat.simps [simp del]

definition str_int :: "int \<Rightarrow> string" where
  "str_int i = (if i < 0 then CHR ''-'' # str_nat (nat (- i)) else str_nat (nat i))"

text \<open>
  \<open>json.dumps\<close> with its defaults (\<open>ensure_ascii=True\<close>, separators \<open>", "\<close> and
  \<open>": "\<close>). A character of a string is a code point below 256. A float is written by
  \<open>float.__repr__\<close>, which is a parameter.
\<close>

definition hex_char :: "nat \<Rightarrow> char" where
  "hex_char d = ''0123456789abcdef'' ! d"

definition json_escape :: "char \<Rightarrow> string" where
  "json_escape c =
     (if c = CHR 0x22 then [CHR 0x5C, CHR 0x22]
      else if c = CHR 0x5C then [CHR 0x5C, CHR 0x5C]
      else if c = CHR 0x0A then [CHR 0x5C, CHR ''n'']
      else if c = CHR 0x0D then [CHR 0x5C, CHR ''r'']
      else if c = CHR 0x09 then [CHR 0x5C, CHR ''t'']
      else if c = CHR 0x08 then [CHR 0x5C, CHR ''b'']
      else if c = CHR 0x0C then [CHR 0x5C, CHR ''f'']
      else if 32 \<le> (of_char c :: nat) \<and> (of_char c :: nat) \<le> 126 then [c]
      else [CHR 0x5C, CHR ''u'', CHR ''0'', CHR ''0'',
            hex_char ((of_char c :: nat) div 16), hex_char ((of_char c :: nat) mod 16)])"

definition json_string :: "string \<Rightarrow> string" where
  "json_string s = CHR 0x22 # concat (map json_escape s) @ [CHR 0x22]"

fun json_dumps :: "(real \<Rightarrow> string) \<Rightarrow> pyval \<Rightarrow> string"
and dumps_list :: "(real \<Rightarrow> string) \<Rightarrow> pyval list \<Rightarrow> string"
and dumps_items :: "(real \<Rightarrow> string) \<Rightarrow> (string \<times> pyval) list \<Rightarrow> string"
where
  "json_dumps float_repr PNone = ''null''"
| "json_dumps float_repr (PBool b) = (if b then ''true'' else ''false'')"
| "json_dumps float_repr (PInt i) = str_int i"
| "json_dumps float_repr (PFloat x) = float_repr x"
| "json_dumps float_repr (PStr s) = json_string s"
| "json_dumps float_repr (PList vs) = CHR ''['' # dumps_list float_repr vs @ '']''"
| "json_dumps float_repr (PDict kvs) = CHR ''{'' # dumps_items float_repr kvs @ ''}''"
| "dumps_list float_repr [] = []"
| "dumps_list float_repr [v] = json_dumps float_repr v"
| "dumps_list float_repr (v # w # vs) =
     json_dumps float_repr v @ '', '' @ dumps_list float_repr (w # vs)"
| "dumps_items float_repr [] = []"
| "dumps_items float_repr [(k, v)] = json_string k @ '': '' @ json_dumps float_repr v"
| "dumps_items float_repr ((k, v) # kv # kvs) =
     json_string k @ '': '' @ json_dumps float_repr v @ '', ''
       @ dumps_items float_repr (kv # kvs)"

section \<open>The scoring script\<close>

text \<open>
  \<^verbatim>\<open>
  MODEL = None

  def run(data: pd.DataFrame):
      try:
          predictions = MODEL.predict_proba(data)
          classes = predictions.argmax(axis=1)
          confidence = predictions.max(axis=1)
          return json.dumps({
              "class": classes.tolist(),
              "confidence": confidence.tolist()
          })
      except RuntimeError as E:
          logging.error(f'[ERR] Exception happened: {str(E)}')
          return f'Input {str(data)}. Exception was: {str(E)}'
  \<close>
  The state of the module is the global \<open>MODEL\<close> and the records sent to \<open>logging\<close>.
  \<open>str\<close> of a frame is pandas' rendering, a parameter like \<open>float.__repr__\<close>.
\<close>

record 'm score_py =
  MODEL :: "'m option"
  logging :: "string list"

record py_str =
  float_repr :: "real \<Rightarrow> string"
  frame_str :: "DataFrame \<Rightarrow> string"

text \<open>
  \<^verbatim>\<open>
  def init():
      global MODEL
      model_path = os.getenv("AZUREML_MODEL_DIR")
      MODEL = XGBClassifier(use_label_encoder=False)
      MODEL.load_model(model_path)
  \<close>
  The script imports \<open>os\<close>, \<open>pandas\<close>, \<open>logging\<close>, \<open>json\<close> and the schema decorators,
  and not \<open>xgboost\<close>: the name \<open>XGBClassifier\<close> is unbound where \<open>init\<close> uses it, so
  \<open>init\<close> raises \<open>NameError\<close> before it assigns \<open>MODEL\<close>. What \<open>run\<close> does is stated
  for every value of \<open>MODEL\<close>, however it was set.
\<close>

definition init :: "'m score_py \<Rightarrow> (exn + pyobj) \<times> 'm score_py" where
  "init g = (Inl (Exn NameError ''name XGBClassifier is not defined''), g)"

text \<open>The body of the \<open>try\<close>, and \<open>run\<close> with its handler around it.\<close>

definition run_try ::
  "'m xgboost \<Rightarrow> py_str \<Rightarrow> 'm score_py \<Rightarrow> DataFrame \<Rightarrow> (exn + pyobj) \<times> 'm score_py"
where
  "run_try xgb py g batch =
     (case MODEL g of
        None \<Rightarrow>
          (Inl (Exn AttributeError ''NoneType object has no attribute predict_proba''), g)
      | Some m \<Rightarrow>
          (case predict_proba xgb m batch of
             (Inl e, m') \<Rightarrow> (Inl e, g\<lparr>MODEL := Some m'\<rparr>)
           | (Inr predictions, m') \<Rightarrow>
               (case argmax_axis1 predictions of
                  Inl e \<Rightarrow> (Inl e, g\<lparr>MODEL := Some m'\<rparr>)
                | Inr classes \<Rightarrow>
                    (case max_axis1 predictions of
                       Inl e \<Rightarrow> (Inl e, g\<lparr>MODEL := Some m'\<rparr>)
                     | Inr confidence \<Rightarrow>
                         (Inr (Str (json_dumps (float_repr py)
                            (PDict [(''class'', PList (tolist_int classes)),
                                    (''confidence'', PList (tolist_float confidence))]))),
                          g\<lparr>MODEL := Some m'\<rparr>)))))"

definition run :: "'m xgboost \<Rightarrow> py_str \<Rightarrow> 'm score_py \<Rightarrow> DataFrame \<Rightarrow> (exn + pyobj) \<times> 'm score_py" where
  "run xgb py g batch =
     (case run_try xgb py g batch of
        (Inr r, g') \<Rightarrow> (Inr r, g')
      | (Inl E, g') \<Rightarrow>
          if isinstance E RuntimeError
          then (Inr (Str (''Input '' @ frame_str py batch @ ''. Exception was: '' @ exn_str E)),
                g'\<lparr>logging := logging g' @ [''[ERR] Exception happened: '' @ exn_str E]\<rparr>)
          else (Inl E, g'))"

section \<open>Built-in conversions\<close>

text \<open>
  \<open>int(s)\<close> for a string: surrounding whitespace is dropped, a sign may lead, and the
  rest is decimal digits, where one underscore may stand between two digits. Anything
  else raises \<open>ValueError\<close> (here \<open>None\<close>). The whitespace \<open>int\<close> drops is the tab, the
  line feed, the vertical tab, the form feed, the carriage return, the space, the next
  line character and the no-break space; the separators U+001C to U+001F, which
  \<open>str.strip\<close> drops, are no whitespace for \<open>int\<close>. A string with more digits than
  \<open>sys.get_int_max_str_digits()\<close>, 4300 unless changed, raises \<open>ValueError\<close> too; leading
  zeros count, the sign, the underscores and the whitespace do not.
\<close>

definition is_space :: "char \<Rightarrow> bool" where
  "is_space c = ((of_char c :: nat) \<in> {9, 10, 11, 12, 13, 32, 133, 160})"

definition strip :: "string \<Rightarrow> string" where
  "strip s = rev (dropWhile is_space (rev (dropWhile is_space s)))"

definition is_digit :: "char \<Rightarrow> bool" where
  "is_digit c = (48 \<le> (of_char c :: nat) \<and> (of_char c :: nat) \<le> 57)"

definition digit_val :: "char \<Rightarrow> nat" where
  "digit_val c = (of_char c :: nat) - 48"

fun digits_val :: "string \<Rightarrow> bool \<Rightarrow> nat \<Rightarrow> nat option" where
  "digits_val [] prev acc = (if prev then Some acc else None)"
| "digits_val (c # cs) prev acc =
     (if is_digit c then digits_val cs True (10 * acc + digit_val c)
      else if c = CHR ''_'' \<and> prev then digits_val cs False acc
      else None)"

definition int_max_str_digits :: nat where
  "int_max_str_digits = 4300"

definition py_int :: "string \<Rightarrow> int option" where
  "py_int s =
     (if int_max_str_digits < length (filter is_digit (strip s)) then None
      else (case strip s of
              [] \<Rightarrow> None
            | c # r \<Rightarrow>
                if c = CHR ''-'' then map_option (\<lambda>n. - int n) (digits_val r False 0)
                else if c = CHR ''+'' then map_option int (digits_val r False 0)
                else map_option int (digits_val (c # r) False 0)))"

text \<open>\<open>max\<close> of a non-empty list, as the built-in computes it: the first largest item.\<close>

fun py_max_loop :: "int list \<Rightarrow> int \<Rightarrow> int" where
  "py_max_loop [] best = best"
| "py_max_loop (x # xs) best = (if best < x then py_max_loop xs x else py_max_loop xs best)"

definition py_max :: "int list \<Rightarrow> exn + int" where
  "py_max xs =
     (case xs of
        [] \<Rightarrow> Inl (Exn ValueError ''max() arg is an empty sequence'')
      | x # rest \<Rightarrow> Inr (py_max_loop rest x))"

section \<open>Provisioning the compute cluster\<close>

text \<open>
  \<^verbatim>\<open>
  cpu_compute_target = "cpu-cluster"
  try:
      cpu_cluster = ml_client.compute.get(cpu_compute_target)
      print(f"You already have a cluster named {cpu_compute_target}, we'll reuse it as is.")
  except Exception:
      print("Creating a new cpu compute target...")
      cpu_cluster = AmlCompute(
          name=cpu_compute_target, type="amlcompute", size="STANDARD_DS3_V2",
          min_instances=0, max_instances=4, idle_time_before_scale_down=180,
          tier="Dedicated",
      )
      cpu_cluster = ml_client.compute.begin_create_or_update(cpu_cluster)
  print(f"AMLCompute with name {cpu_cluster.name} is created, the compute size is {cpu_cluster.size}")
  \<close>
  The two operations of \<open>ml_client.compute\<close> are remote calls: their outcomes are
  parameters. \<open>begin_create_or_update\<close> returns what the client library decides, the
  entity or a poller for it; a poller has no attribute \<open>name\<close>. The cell's result records
  the exception that leaves it, the value bound to \<open>cpu_cluster\<close>, the calls made on the
  client in order and the lines printed.
\<close>

record AmlCompute =
  compute_name :: string
  compute_type :: string
  compute_size :: string
  min_instances :: int
  max_instances :: int
  idle_time_before_scale_down :: int
  tier :: string

datatype compute_obj = Compute AmlCompute | LROPoller AmlCompute

datatype compute_call = Get string | Begin_create_or_update AmlCompute

record compute_operations =
  compute_get :: "string \<Rightarrow> exn + AmlCompute"
  compute_begin_create_or_update :: "AmlCompute \<Rightarrow> exn + compute_obj"

record compute_cell =
  raised :: "exn option"
  cpu_cluster :: "compute_obj option"
  compute_calls :: "compute_call list"
  printed :: "string list"

definition cpu_compute_target :: string where
  "cpu_compute_target = ''cpu-cluster''"

definition new_cpu_cluster :: AmlCompute where
  "new_cpu_cluster =
     \<lparr>compute_name = cpu_compute_target, compute_type = ''amlcompute'',
      compute_size = ''STANDARD_DS3_V2'', min_instances = 0, max_instances = 4,
      idle_time_before_scale_down = 180, tier = ''Dedicated''\<rparr>"

fun getattr_name_size :: "compute_obj \<Rightarrow> exn + string \<times> string" where
  "getattr_name_size (Compute c) = Inr (compute_name c, compute_size c)"
| "getattr_name_size (LROPoller c) =
     Inl (Exn AttributeError ''LROPoller object has no attribute name'')"

definition print_cluster :: "compute_call list \<Rightarrow> string list \<Rightarrow> compute_obj \<Rightarrow> compute_cell" where
  "print_cluster calls out obj =
     (case getattr_name_size obj of
        Inl e \<Rightarrow> \<lparr>raised = Some e, cpu_cluster = Some obj, compute_calls = calls, printed = out\<rparr>
      | Inr (n, s) \<Rightarrow>
          \<lparr>raised = None, cpu_cluster = Some obj, compute_calls = calls,
           printed = out @ [''AMLCompute with name '' @ n @ '' is created, the compute size is '' @ s]\<rparr>)"

definition provision_compute :: "compute_operations \<Rightarrow> compute_cell" where
  "provision_compute ops =
     (case compute_get ops cpu_compute_target of
        Inr found \<Rightarrow>
          print_cluster [Get cpu_compute_target]
            [''You already have a cluster named '' @ cpu_compute_target
               @ '', we'' @ [CHR 0x27] @ ''ll reuse it as is.'']
            (Compute found)
      | Inl e \<Rightarrow>
          if isinstance e Exception
          then (case compute_begin_create_or_update ops new_cpu_cluster of
                  Inl e' \<Rightarrow>
                    \<lparr>raised = Some e', cpu_cluster = Some (Compute new_cpu_cluster),
                     compute_calls = [Get cpu_compute_target, Begin_create_or_update new_cpu_cluster],
                     printed = [''Creating a new cpu compute target...'']\<rparr>
                | Inr obj \<Rightarrow>
                    print_cluster
                      [Get cpu_compute_target, Begin_create_or_update new_cpu_cluster]
                      [''Creating a new cpu compute target...''] obj)
          else \<lparr>raised = Some e, cpu_cluster = None,
                compute_calls = [Get cpu_compute_target], printed = []\<rparr>)"

section \<open>Choosing the model to deploy\<close>

text \<open>
  \<^verbatim>\<open>
  registered_model_name = "credit_defaults_model"
  latest_model_version = max(
      [int(m.version) for m in ml_client.models.list(name=registered_model_name)]
  )
  model = ml_client.models.get(name=registered_model_name, version=latest_model_version)
  blue_deployment = ManagedOnlineDeployment(
      name="blue", endpoint_name=online_endpoint_name, model=model,
      instance_type="Standard_DS3_v2", instance_count=1,
  )
  blue_deployment = ml_client.begin_create_or_update(blue_deployment).result()
  \<close>
  The registry and the deployment service are remote: \<open>models.list\<close>, \<open>models.get\<close> and
  \<open>begin_create_or_update(...).result()\<close> are parameters. The endpoint's name ends in
  a random suffix and is a parameter too.
\<close>

record Model =
  model_name :: string
  version :: string

record ManagedOnlineDeployment =
  deployment_name :: string
  endpoint_name :: string
  deployment_model :: Model
  instance_type :: string
  instance_count :: int

datatype client_call =
    Models_list string
  | Models_get string int
  | Deploy ManagedOnlineDeployment

record ml_client =
  models_list :: "string \<Rightarrow> exn + Model list"
  models_get :: "string \<Rightarrow> int \<Rightarrow> exn + Model"
  begin_create_or_update_result :: "ManagedOnlineDeployment \<Rightarrow> exn + ManagedOnlineDeployment"

definition registered_model_name :: string where
  "registered_model_name = ''credit_defaults_model''"

text \<open>The list comprehension: the first version that is no integer raises.\<close>

fun int_versions :: "Model list \<Rightarrow> exn + int list" where
  "int_versions [] = Inr []"
| "int_versions (m # ms) =
     (case py_int (version m) of
        None \<Rightarrow> Inl (Exn ValueError ''invalid literal for int() with base 10'')
      | Some v \<Rightarrow>
          (case int_versions ms of Inl e \<Rightarrow> Inl e | Inr vs \<Rightarrow> Inr (v # vs)))"

definition latest_model_version :: "ml_client \<Rightarrow> exn + int" where
  "latest_model_version client =
     (case models_list client registered_model_name of
        Inl e \<Rightarrow> Inl e
      | Inr ms \<Rightarrow>
          (case int_versions ms of Inl e \<Rightarrow> Inl e | Inr vs \<Rightarrow> py_max vs))"

definition blue_deployment ::
  "ml_client \<Rightarrow> string \<Rightarrow> int \<Rightarrow> (exn + ManagedOnlineDeployment) \<times> client_call list"
where
  "blue_deployment client online_endpoint_name latest =
     (case models_get client registered_model_name latest of
        Inl e \<Rightarrow> (Inl e, [Models_get registered_model_name latest])
      | Inr fetched \<Rightarrow>
          (let d = \<lparr>deployment_name = ''blue'', endpoint_name = online_endpoint_name,
                    deployment_model = fetched, instance_type = ''Standard_DS3_v2'',
                    instance_count = 1\<rparr>
           in (begin_create_or_update_result client d,
               [Models_get registered_model_name latest, Deploy d])))"

definition deploy_latest ::
  "ml_client \<Rightarrow> string \<Rightarrow> (exn + ManagedOnlineDeployment) \<times> client_call list"
where
  "deploy_latest client online_endpoint_name =
     (case latest_model_version client of
        Inl e \<Rightarrow> (Inl e, [Models_list registered_model_name])
      | Inr latest \<Rightarrow>
          (case blue_deployment client online_endpoint_name latest of
             (r, calls) \<Rightarrow> (r, Models_list registered_model_name # calls)))"

section \<open>The training script's command line\<close>

text \<open>
  \<^verbatim>\<open>
  parser = argparse.ArgumentParser()
  parser.add_argument("--data", type=str, help="path to input data")
  parser.add_argument("--test_train_ratio", type=float, required=False, default=0.25)
  parser.add_argument("--n_estimators", required=False, default=100, type=int)
  parser.add_argument("--learning_rate", required=False, default=0.1, type=float)
  parser.add_argument("--registered_model_name", type=str, help="model name")
  args = parser.parse_args()
  \<close>
  Each \<open>add_argument\<close> call is one entry of the parser: its option string, the
  attribute it sets (the option string without its dashes), the conversion, whether it
  is required (\<open>False\<close> unless given) and its default (\<open>None\<close> unless given). A float
  literal of the source stands for the real number it denotes.
\<close>

datatype conversion = Str_type | Float_type | Int_type

record argument =
  arg_option :: string
  arg_dest :: string
  arg_type :: conversion
  arg_required :: bool
  arg_default :: "pyval option"

definition main_parser :: "argument list" where
  "main_parser =
     [\<lparr>arg_option = ''--data'', arg_dest = ''data'', arg_type = Str_type,
       arg_required = False, arg_default = None\<rparr>,
      \<lparr>arg_option = ''--test_train_ratio'', arg_dest = ''test_train_ratio'',
       arg_type = Float_type, arg_required = False, arg_default = Some (PFloat 0.25)\<rparr>,
      \<lparr>arg_option = ''--n_estimators'', arg_dest = ''n_estimators'', arg_type = Int_type,
       arg_required = False, arg_default = Some (PInt 100)\<rparr>,
      \<lparr>arg_option = ''--learning_rate'', arg_dest = ''learning_rate'',
       arg_type = Float_type, arg_required = False, arg_default = Some (PFloat 0.1)\<rparr>,
      \<lparr>arg_option = ''--registered_model_name'', arg_dest = ''registered_model_name'',
       arg_type = Str_type, arg_required = False, arg_default = None\<rparr>]"

text \<open>
  \<open>parse_args\<close> is the standard library's. The model follows \<open>argparse\<close>, as CPython 3.11
  has it, for a parser whose arguments are all long options that store one value,
  together with the help flags \<open>-h\<close> and \<open>--help\<close> that every parser adds:
  \<^item> every string of the command line is classified first: a string that is empty or
    does not begin with a dash is a value; one that is an option string stands for that
    option; \<open>--opt=value\<close> carries its value, with the separator \<open>=\<close>; a proper prefix
    of exactly one long option string stands for that option, a prefix of several is an
    error; text glued to a one-letter flag is carried with an empty separator; a
    negative number or a string with a space is a value; any other string with a dash
    is an unknown option. After a \<open>--\<close> every string is a value.
  \<^item> the strings are then consumed from left to right. An option takes the value it
    carries, or else the next string, which must be a value; the value is converted
    (\<open>str\<close>, \<open>int\<close>, \<open>float\<close>) and stored. A help flag prints the usage and exits with
    status 0. Values that no option takes, unknown options and a \<open>--\<close> are collected,
    and \<open>parse_args\<close> exits with status 2 if any was collected.
  \<^item> an error exits with status 2.
  \<open>float\<close> on a string is a parameter. The result lists every attribute in the order of
  declaration, starting from the defaults.
\<close>

datatype arg_class =
    Positional
  | Double_dash
  | Optional argument "(string \<times> string) option"
  | Help_flag "(string \<times> string) option"
  | Unknown_optional
  | Ambiguous

definition help_options :: "string list" where
  "help_options = [''-h'', ''--help'']"

definition split_eq :: "string \<Rightarrow> (string \<times> string) option" where
  "split_eq s =
     (if CHR ''='' \<in> set s
      then Some (takeWhile (\<lambda>c. c \<noteq> CHR ''='') s, tl (dropWhile (\<lambda>c. c \<noteq> CHR ''='') s))
      else None)"

fun starts_with :: "string \<Rightarrow> string \<Rightarrow> bool" where
  "starts_with s [] = True"
| "starts_with [] (p # ps) = False"
| "starts_with (c # cs) (p # ps) = (c = p \<and> starts_with cs ps)"

text \<open>The pattern \<open>^-\d+$|^-\d*\.\d+$\<close>; \<open>$\<close> also matches before a final newline.\<close>

definition negative_number :: "string \<Rightarrow> bool" where
  "negative_number s =
     (case (if s \<noteq> [] \<and> last s = CHR 0x0A then butlast s else s) of
        [] \<Rightarrow> False
      | c # r \<Rightarrow>
          c = CHR ''-'' \<and>
          ((r \<noteq> [] \<and> list_all is_digit r)
           \<or> (let ds = takeWhile is_digit r; fs = dropWhile is_digit r
               in (case fs of
                     [] \<Rightarrow> False
                   | d # fs' \<Rightarrow> d = CHR ''.'' \<and> fs' \<noteq> [] \<and> list_all is_digit fs'))))"

definition get_option_tuples :: "argument list \<Rightarrow> string \<Rightarrow> arg_class list" where
  "get_option_tuples parser s =
     (if starts_with s ''--''
      then (let (option_prefix, explicit_arg) =
                  (case split_eq s of
                     Some (p, v) \<Rightarrow> (p, Some (''='', v))
                   | None \<Rightarrow> (s, None))
            in map (\<lambda>h. Help_flag explicit_arg)
                 (filter (\<lambda>h. starts_with h option_prefix) help_options)
               @ map (\<lambda>a. Optional a explicit_arg)
                   (filter (\<lambda>a. starts_with (arg_option a) option_prefix) parser))
      else concat (map (\<lambda>h. if h = take 2 s then [Help_flag (Some ([], drop 2 s))]
                             else if starts_with h s then [Help_flag None] else [])
                     help_options)
           @ concat (map (\<lambda>a. if arg_option a = take 2 s
                               then [Optional a (Some ([], drop 2 s))]
                               else if starts_with (arg_option a) s then [Optional a None]
                               else [])
                       parser))"

definition parse_abbreviation :: "argument list \<Rightarrow> string \<Rightarrow> arg_class" where
  "parse_abbreviation parser s =
     (case get_option_tuples parser s of
        [] \<Rightarrow> if negative_number s then Positional
              else if CHR '' '' \<in> set s then Positional
              else Unknown_optional
      | [t] \<Rightarrow> t
      | t # t' # ts \<Rightarrow> Ambiguous)"

definition parse_optional :: "argument list \<Rightarrow> string \<Rightarrow> arg_class" where
  "parse_optional parser s =
     (if s = [] then Positional
      else if hd s \<noteq> CHR ''-'' then Positional
      else if s \<in> set help_options then Help_flag None
      else (case find (\<lambda>a. arg_option a = s) parser of
              Some a \<Rightarrow> Optional a None
            | None \<Rightarrow>
                if length s = 1 then Positional
                else (case split_eq s of
                        None \<Rightarrow> parse_abbreviation parser s
                      | Some (p, v) \<Rightarrow>
                          if p \<in> set help_options then Help_flag (Some (''='', v))
                          else (case find (\<lambda>a. arg_option a = p) parser of
                                  Some a \<Rightarrow> Optional a (Some (''='', v))
                                | None \<Rightarrow> parse_abbreviation parser s))))"

fun classify :: "argument list \<Rightarrow> string list \<Rightarrow> arg_class list" where
  "classify parser [] = []"
| "classify parser (s # ss) =
     (if s = ''--'' then Double_dash # map (\<lambda>t. Positional) ss
      else parse_optional parser s # classify parser ss)"

type_synonym Namespace = "(string \<times> pyval option) list"

definition defaults :: "argument list \<Rightarrow> Namespace" where
  "defaults parser = map (\<lambda>a. (arg_dest a, arg_default a)) parser"

definition get_value :: "(string \<Rightarrow> real option) \<Rightarrow> conversion \<Rightarrow> string \<Rightarrow> pyval option" where
  "get_value py_float t s =
     (case t of
        Str_type \<Rightarrow> Some (PStr s)
      | Float_type \<Rightarrow> map_option PFloat (py_float s)
      | Int_type \<Rightarrow> map_option PInt (py_int s))"

definition store :: "Namespace \<Rightarrow> string \<Rightarrow> pyval \<Rightarrow> Namespace" where
  "store ns d v = map (\<lambda>(k, old). if k = d then (k, Some v) else (k, old)) ns"

definition getattr :: "Namespace \<Rightarrow> string \<Rightarrow> pyval option option" where
  "getattr ns d = map_of ns d"

definition exit_status :: "nat \<Rightarrow> exn" where
  "exit_status n = Exn SystemExit (str_nat n)"

text \<open>
  The string an option without a carried value takes: the next one, when it is a
  value. A \<open>--\<close> is no value for an option. The result is the value and what is left of
  the command line.
\<close>

fun take_value ::
  "(arg_class \<times> string) list \<Rightarrow> (string \<times> (arg_class \<times> string) list) option"
where
  "take_value ((Positional, v) # rest) = Some (v, rest)"
| "take_value rest = None"

text \<open>
  A help flag that carries text. \<open>--help=...\<close> is an error, and so is \<open>-h=...\<close>. After \<open>-h\<close>
  the text is read as further one-letter flags: a dash is an error; an \<open>h\<close> is the help
  flag again, and an \<open>=\<close> after it is an error; at any other letter the rest is set aside
  and the help flag acts. The flag that acts prints the usage and exits with status 0.
\<close>

fun help_tail :: "string \<Rightarrow> string \<Rightarrow> exn" where
  "help_tail sep [] = exit_status 2"
| "help_tail sep (c # e) =
     (if sep \<noteq> [] \<or> c = CHR ''-'' then exit_status 2
      else if [CHR ''-'', c] \<in> set help_options
      then (case e of
              [] \<Rightarrow> exit_status 0
            | d # e' \<Rightarrow> if d = CHR ''='' then help_tail ''='' e' else help_tail [] (d # e'))
      else exit_status 0)"

definition help_exit :: "string \<Rightarrow> (string \<times> string) option \<Rightarrow> exn" where
  "help_exit s explicit_arg =
     (case explicit_arg of
        None \<Rightarrow> exit_status 0
      | Some (sep, v) \<Rightarrow>
          if starts_with s ''--'' then exit_status 2 else help_tail sep v)"

lemma take_value_shorter: "take_value toks = Some (v, rest) \<Longrightarrow> length rest < length toks"
  by (induction toks rule: take_value.induct) auto

function consume ::
  "(string \<Rightarrow> real option) \<Rightarrow> Namespace \<Rightarrow> string list \<Rightarrow> (arg_class \<times> string) list
     \<Rightarrow> exn + Namespace \<times> string list"
where
  "consume py_float ns extras [] = Inr (ns, extras)"
| "consume py_float ns extras ((c, s) # rest) =
     (case c of
        Positional \<Rightarrow> consume py_float ns (extras @ [s]) rest
      | Double_dash \<Rightarrow> consume py_float ns (extras @ [s]) rest
      | Unknown_optional \<Rightarrow> consume py_float ns (extras @ [s]) rest
      | Ambiguous \<Rightarrow> Inl (exit_status 2)
      | Help_flag explicit_arg \<Rightarrow> Inl (help_exit s explicit_arg)
      | Optional a explicit_arg \<Rightarrow>
          (case (case explicit_arg of
                   Some (sep, v) \<Rightarrow> Some (v, rest)
                 | None \<Rightarrow> take_value rest) of
             None \<Rightarrow> Inl (exit_status 2)
           | Some (v, rest') \<Rightarrow>
               (case get_value py_float (arg_type a) v of
                  None \<Rightarrow> Inl (exit_status 2)
                | Some x \<Rightarrow> consume py_float (store ns (arg_dest a) x) extras rest')))"
  by pat_completeness auto
termination
  by (relation "measure (\<lambda>(f, ns, extras, toks). length toks)")
     (auto split: option.splits dest: take_value_shorter)

definition parse_known_args ::
  "(string \<Rightarrow> real option) \<Rightarrow> argument list \<Rightarrow> string list \<Rightarrow> exn + Namespace \<times> string list"
where
  "parse_known_args py_float parser argv =
     (let classes = classify parser argv
      in if Ambiguous \<in> set classes then Inl (exit_status 2)
         else consume py_float (defaults parser) [] (zip classes argv))"

definition parse_args ::
  "(string \<Rightarrow> real option) \<Rightarrow> argument list \<Rightarrow> string list \<Rightarrow> exn + Namespace"
where
  "parse_args py_float parser argv =
     (case parse_known_args py_float parser argv of
        Inl e \<Rightarrow> Inl e
      | Inr (ns, extras) \<Rightarrow> if extras = [] then Inr ns else Inl (exit_status 2))"

text \<open>
  The command lines that supply only \<open>--data\<close> and \<open>--registered_model_name\<close>: every
  string is one of these two options as \<open>argparse\<close> reads it (spelled out, abbreviated, or
  with \<open>=value\<close>), or the value of the option before it; an option that carries no value
  is followed by a string that \<open>argparse\<close> reads as a value. \<open>names_only\<close> asks less: no
  string is read as another option of the parser.
\<close>

definition data_or_name :: "argument \<Rightarrow> bool" where
  "data_or_name a =
     (a \<in> set main_parser
      \<and> (arg_option a = ''--data'' \<or> arg_option a = ''--registered_model_name''))"

fun supplies :: "(arg_class \<times> string) list \<Rightarrow> bool" where
  "supplies [] = True"
| "supplies [(c, s)] =
     (case c of
        Optional a explicit_arg \<Rightarrow> data_or_name a \<and> explicit_arg \<noteq> None
      | _ \<Rightarrow> False)"
| "supplies ((c, s) # (c', s') # rest) =
     (case c of
        Optional a explicit_arg \<Rightarrow>
          data_or_name a \<and>
          (if explicit_arg \<noteq> None then supplies ((c', s') # rest)
           else c' = Positional \<and> supplies rest)
      | _ \<Rightarrow> False)"

definition supplies_only :: "string list \<Rightarrow> bool" where
  "supplies_only argv = supplies (zip (classify main_parser argv) argv)"

definition names_only :: "string list \<Rightarrow> bool" where
  "names_only argv =
     list_all (\<lambda>c. case c of Optional a explicit_arg \<Rightarrow> data_or_name a | _ \<Rightarrow> True)
       (classify main_parser argv)"

section \<open>The command job\<close>

text \<open>
  \<^verbatim>\<open>
  registered_model_name = "credit_defaults_model"
  job = command(
      inputs=dict(
          data=Input(type="uri_file", path="https://.../default%20of%20credit%20card%20clients.xls"),
          test_train_ratio=0.2,
          learning_rate=0.25,
          registered_model_name=registered_model_name,
      ),
      code="./src/",
      command="python main.py --data ${{inputs.data}} --test_train_ratio ${{inputs.test_train_ratio}} --learning_rate ${{inputs.learning_rate}} --registered_model_name ${{inputs.registered_model_name}}",
      ...
  )
  \<close>
  The service runs the command with every \<open>${{inputs.name}}\<close> replaced by the input's
  value: the numbers as Python prints them, the data file by the path under which the
  compute node sees it, which is a parameter and one word. The script's \<open>sys.argv[1:]\<close>
  is the command's words after \<open>python main.py\<close>.
\<close>

definition job_command :: string where
  "job_command = ''python main.py --data ${{inputs.data}} --test_train_ratio ${{inputs.test_train_ratio}} --learning_rate ${{inputs.learning_rate}} --registered_model_name ${{inputs.registered_model_name}}''"

definition job_inputs :: "string \<Rightarrow> (string \<times> string) list" where
  "job_inputs data_path =
     [(''data'', data_path),
      (''test_train_ratio'', ''0.2''),
      (''learning_rate'', ''0.25''),
      (''registered_model_name'', registered_model_name)]"

fun split_words :: "string \<Rightarrow> string \<Rightarrow> string list" where
  "split_words [] word = (if word = [] then [] else [word])"
| "split_words (c # cs) word =
     (if c = CHR '' '' then (if word = [] then split_words cs [] else word # split_words cs [])
      else split_words cs (word @ [c]))"

definition render_word :: "(string \<times> string) list \<Rightarrow> string \<Rightarrow> string" where
  "render_word inputs w =
     (case map_of (map (\<lambda>(k, v). (''${{inputs.'' @ k @ ''}}'', v)) inputs) w of
        Some v \<Rightarrow> v
      | None \<Rightarrow> w)"

definition job_argv :: "string \<Rightarrow> string list" where
  "job_argv data_path =
     drop 2 (map (render_word (job_inputs data_path)) (split_words job_command []))"

section \<open>Reading JSON text\<close>

text \<open>
  The documents that \<open>json.loads\<close> reads, before numbers become Python numbers: an
  integer literal is kept as its value, a literal with a fraction or an exponent as its
  text (its value is \<open>float\<close> of that text).
\<close>

datatype json =
    JNull | JBool bool | JInt int | JFloat string | JString string
  | JArray "json list" | JObject "(string \<times> json) list"

definition is_ws :: "char \<Rightarrow> bool" where
  "is_ws c = (c = CHR '' '' \<or> c = CHR 0x09 \<or> c = CHR 0x0A \<or> c = CHR 0x0D)"

definition skip_ws :: "string \<Rightarrow> string" where
  "skip_ws s = dropWhile is_ws s"

text \<open>
  A number, by the decoder's pattern
  \<open>(-?(?:0|[1-9]\d*))(\.\d+)?([eE][-+]?\d+)?\<close>: each scanner returns the text it
  matched and the text left; a fraction or an exponent that does not match is absent.
\<close>

definition scan_digits :: "string \<Rightarrow> string \<times> string" where
  "scan_digits s = (takeWhile is_digit s, dropWhile is_digit s)"

definition scan_sign :: "string \<Rightarrow> string \<times> string" where
  "scan_sign s = (case s of [] \<Rightarrow> ([], s) | c # r \<Rightarrow> if c = CHR ''-'' then ([c], r) else ([], s))"

definition scan_int_part :: "string \<Rightarrow> (string \<times> string) option" where
  "scan_int_part s =
     (case s of
        [] \<Rightarrow> None
      | c # r \<Rightarrow>
          if c = CHR ''0'' then Some ([c], r)
          else if is_digit c then Some (c # fst (scan_digits r), snd (scan_digits r))
          else None)"

definition scan_frac :: "string \<Rightarrow> string \<times> string" where
  "scan_frac s =
     (case s of
        [] \<Rightarrow> ([], s)
      | c # r \<Rightarrow>
          if c = CHR ''.'' \<and> fst (scan_digits r) \<noteq> []
          then (c # fst (scan_digits r), snd (scan_digits r))
          else ([], s))"

definition scan_exp_sign :: "string \<Rightarrow> string \<times> string" where
  "scan_exp_sign s =
     (case s of
        [] \<Rightarrow> ([], s)
      | c # r \<Rightarrow> if c = CHR ''-'' \<or> c = CHR ''+'' then ([c], r) else ([], s))"

definition scan_exp :: "string \<Rightarrow> string \<times> string" where
  "scan_exp s =
     (case s of
        [] \<Rightarrow> ([], s)
      | c # r \<Rightarrow>
          if (c = CHR ''e'' \<or> c = CHR ''E'')
             \<and> fst (scan_digits (snd (scan_exp_sign r))) \<noteq> []
          then (c # fst (scan_exp_sign r) @ fst (scan_digits (snd (scan_exp_sign r))),
                snd (scan_digits (snd (scan_exp_sign r))))
          else ([], s))"

definition nat_of_digits :: "string \<Rightarrow> nat" where
  "nat_of_digits ds = foldl (\<lambda>n c. 10 * n + digit_val c) 0 ds"

definition scan_number :: "string \<Rightarrow> (json \<times> string) option" where
  "scan_number s =
     (case scan_int_part (snd (scan_sign s)) of
        None \<Rightarrow> None
      | Some (ip, r1) \<Rightarrow>
          (let (frac, r2) = scan_frac r1; (ex, r3) = scan_exp r2
           in if frac = [] \<and> ex = []
              then Some (JInt (if fst (scan_sign s) = [] then int (nat_of_digits ip)
                               else - int (nat_of_digits ip)), r3)
              else Some (JFloat (fst (scan_sign s) @ ip @ frac @ ex), r3)))"

text \<open>
  A string, read after its opening quote: up to the closing quote, with the escapes
  undone. A raw control character is refused, and so is a \<open>\u\<close> escape of a code point
  from 256 on, which a character here cannot hold.
\<close>

definition hex_val :: "char \<Rightarrow> nat option" where
  "hex_val c =
     (let n = (of_char c :: nat)
      in if 48 \<le> n \<and> n \<le> 57 then Some (n - 48)
         else if 97 \<le> n \<and> n \<le> 102 then Some (n - 87)
         else if 65 \<le> n \<and> n \<le> 70 then Some (n - 55)
         else None)"

definition unescape :: "char \<Rightarrow> char option" where
  "unescape c =
     (if c = CHR 0x22 then Some (CHR 0x22)
      else if c = CHR 0x5C then Some (CHR 0x5C)
      else if c = CHR ''/'' then Some (CHR ''/'')
      else if c = CHR ''b'' then Some (CHR 0x08)
      else if c = CHR ''f'' then Some (CHR 0x0C)
      else if c = CHR ''n'' then Some (CHR 0x0A)
      else if c = CHR ''r'' then Some (CHR 0x0D)
      else if c = CHR ''t'' then Some (CHR 0x09)
      else None)"

definition scan_escape :: "string \<Rightarrow> (char \<times> string) option" where
  "scan_escape s =
     (case s of
        [] \<Rightarrow> None
      | e # cs \<Rightarrow>
          if e = CHR ''u'' then
            (case cs of
               h1 # h2 # h3 # h4 # cs' \<Rightarrow>
                 (case (hex_val h1, hex_val h2, hex_val h3, hex_val h4) of
                    (Some a, Some b, Some c, Some d) \<Rightarrow>
                      if a = 0 \<and> b = 0 then Some (char_of (16 * c + d), cs') else None
                  | _ \<Rightarrow> None)
             | _ \<Rightarrow> None)
          else (case unescape e of None \<Rightarrow> None | Some x \<Rightarrow> Some (x, cs)))"

lemma scan_escape_shorter: "scan_escape s = Some (x, r) \<Longrightarrow> length r < length s"
  by (auto simp: scan_escape_def split: list.splits if_splits option.splits)

function scan_string :: "string \<Rightarrow> (string \<times> string) option" where
  "scan_string [] = None"
| "scan_string (c # cs) =
     (if c = CHR 0x22 then Some ([], cs)
      else if c = CHR 0x5C then
        (case scan_escape cs of
           None \<Rightarrow> None
         | Some (x, cs') \<Rightarrow>
             (case scan_string cs' of
                None \<Rightarrow> None
              | Some (str, r) \<Rightarrow> Some (x # str, r)))
      else if (of_char c :: nat) < 32 then None
      else (case scan_string cs of
              None \<Rightarrow> None
            | Some (str, r) \<Rightarrow> Some (c # str, r)))"
  by pat_completeness auto
termination
  by (relation "measure length") (auto dest: scan_escape_shorter)

text \<open>
  A value starts at the first character of the text; white space is skipped around
  the punctuation of arrays and objects, as the decoder does. A value that is no
  string, array or object is a literal or a number. The first argument bounds the depth
  of the recursion: \<open>None\<close> is a text that is not JSON, or too little fuel.
\<close>

definition parse_atom :: "string \<Rightarrow> (json \<times> string) option" where
  "parse_atom s =
     (if starts_with s ''null'' then Some (JNull, drop 4 s)
      else if starts_with s ''true'' then Some (JBool True, drop 4 s)
      else if starts_with s ''false'' then Some (JBool False, drop 5 s)
      else (case scan_number s of
              Some vr \<Rightarrow> Some vr
            | None \<Rightarrow>
                if starts_with s ''NaN'' then Some (JFloat ''NaN'', drop 3 s)
                else if starts_with s ''Infinity'' then Some (JFloat ''Infinity'', drop 8 s)
                else if starts_with s ''-Infinity'' then Some (JFloat ''-Infinity'', drop 9 s)
                else None))"

fun parse_value :: "nat \<Rightarrow> string \<Rightarrow> (json \<times> string) option"
and parse_elements :: "nat \<Rightarrow> string \<Rightarrow> (json list \<times> string) option"
and parse_members :: "nat \<Rightarrow> string \<Rightarrow> ((string \<times> json) list \<times> string) option"
where
  "parse_value 0 s = None"
| "parse_value (Suc n) s =
     (case s of
        [] \<Rightarrow> None
      | c # r \<Rightarrow>
          if c = CHR 0x22 then
            (case scan_string r of None \<Rightarrow> None | Some (str, r') \<Rightarrow> Some (JString str, r'))
          else if c = CHR ''['' then
            (case skip_ws r of
               [] \<Rightarrow> None
             | c' # r' \<Rightarrow>
                 if c' = CHR '']'' then Some (JArray [], r')
                 else (case parse_elements n (c' # r') of
                         None \<Rightarrow> None
                       | Some (vs, r'') \<Rightarrow> Some (JArray vs, r'')))
          else if c = CHR ''{'' then
            (case skip_ws r of
               [] \<Rightarrow> None
             | c' # r' \<Rightarrow>
                 if c' = CHR ''}'' then Some (JObject [], r')
                 else (case parse_members n (c' # r') of
                         None \<Rightarrow> None
                       | Some (kvs, r'') \<Rightarrow> Some (JObject kvs, r'')))
          else parse_atom s)"
| "parse_elements 0 s = None"
| "parse_elements (Suc n) s =
     (case parse_value n s of
        None \<Rightarrow> None
      | Some (v, r) \<Rightarrow>
          (case skip_ws r of
             [] \<Rightarrow> None
           | c # r' \<Rightarrow>
               if c = CHR '','' then
                 (case parse_elements n (skip_ws r') of
                    None \<Rightarrow> None
                  | Some (vs, r'') \<Rightarrow> Some (v # vs, r''))
               else if c = CHR '']'' then Some ([v], r')
               else None))"
| "parse_members 0 s = None"
| "parse_members (Suc n) s =
     (case s of
        [] \<Rightarrow> None
      | q # r \<Rightarrow>
          if q \<noteq> CHR 0x22 then None
          else (case scan_string r of
                  None \<Rightarrow> None
                | Some (k, r1) \<Rightarrow>
                    (case skip_ws r1 of
                       [] \<Rightarrow> None
                     | c # r2 \<Rightarrow>
                         if c \<noteq> CHR '':'' then None
                         else (case parse_value n (skip_ws r2) of
                                 None \<Rightarrow> None
                               | Some (v, r3) \<Rightarrow>
                                   (case skip_ws r3 of
                                      [] \<Rightarrow> None
                                    | c' # r4 \<Rightarrow>
                                        if c' = CHR '','' then
                                          (case parse_members n (skip_ws r4) of
                                             None \<Rightarrow> None
                                           | Some (kvs, r5) \<Rightarrow> Some ((k, v) # kvs, r5))
                                        else if c' = CHR ''}'' then Some ([(k, v)], r4)
                                        else None)))))"

definition json_parse :: "string \<Rightarrow> json option" where
  "json_parse s =
     (case parse_value (length s) (skip_ws s) of
        None \<Rightarrow> None
      | Some (v, r) \<Rightarrow> if skip_ws r = [] then Some v else None)"

text \<open>
  \<open>json.loads\<close>: the document as Python values. An object becomes a \<open>dict\<close>, where a
  key that comes again replaces the value and keeps its place. \<open>float\<close> is a parameter.
\<close>

fun dict_set :: "(string \<times> 'v) list \<Rightarrow> string \<Rightarrow> 'v \<Rightarrow> (string \<times> 'v) list" where
  "dict_set [] k v = [(k, v)]"
| "dict_set ((k', v') # d) k v = (if k' = k then (k, v) # d else (k', v') # dict_set d k v)"

fun py_of_json :: "(string \<Rightarrow> real option) \<Rightarrow> json \<Rightarrow> pyval option"
and py_of_list :: "(string \<Rightarrow> real option) \<Rightarrow> json list \<Rightarrow> pyval list option"
and py_of_members ::
  "(string \<Rightarrow> real option) \<Rightarrow> (string \<times> pyval) list \<Rightarrow> (string \<times> json) list
     \<Rightarrow> (string \<times> pyval) list option"
where
  "py_of_json py_float JNull = Some PNone"
| "py_of_json py_float (JBool b) = Some (PBool b)"
| "py_of_json py_float (JInt i) = Some (PInt i)"
| "py_of_json py_float (JFloat lit) = map_option PFloat (py_float lit)"
| "py_of_json py_float (JString s) = Some (PStr s)"
| "py_of_json py_float (JArray vs) = map_option PList (py_of_list py_float vs)"
| "py_of_json py_float (JObject kvs) = map_option PDict (py_of_members py_float [] kvs)"
| "py_of_list py_float [] = Some []"
| "py_of_list py_float (v # vs) =
     (case py_of_json py_float v of
        None \<Rightarrow> None
      | Some x \<Rightarrow> map_option (Cons x) (py_of_list py_float vs))"
| "py_of_members py_float d [] = Some d"
| "py_of_members py_float d ((k, v) # kvs) =
     (case py_of_json py_float v of
        None \<Rightarrow> None
      | Some x \<Rightarrow> py_of_members py_float (dict_set d k x) kvs)"

definition json_loads :: "(string \<Rightarrow> real option) \<Rightarrow> string \<Rightarrow> pyval option" where
  "json_loads py_float s =
     (case json_parse s of None \<Rightarrow> None | Some j \<Rightarrow> py_of_json py_float j)"


section \<open>The two request payloads\<close>

text \<open>
  The first notebook writes \<open>./deploy/sample-request.json\<close> with \<open>%%writefile\<close>; the
  text below is the cell's body, line by line.
\<close>

definition sample_request :: string where
  \<open>sample_request =
     ''{'' @ [CHR 0x0A] @
     ''  "input_data": {'' @ [CHR 0x0A] @
     ''    "columns": [0,1,2,3,4,5,6,7,8,9,10,11,12,13,14,15,16,17,18,19,20,21,22],'' @ [CHR 0x0A] @
     ''    "index": [0, 1],'' @ [CHR 0x0A] @
     ''    "data": ['' @ [CHR 0x0A] @
     ''            [20000,2,2,1,24,2,2,-1,-1,-2,-2,3913,3102,689,0,0,0,0,689,0,0,0,0],'' @ [CHR 0x0A] @
     ''            [10, 9, 8, 7, 6, 5, 4, 3, 2, 1, 10, 9, 8, 7, 6, 5, 4, 3, 2, 1, 10, 9, 8]'' @ [CHR 0x0A] @
     ''        ]'' @ [CHR 0x0A] @
     ''  }'' @ [CHR 0x0A] @
     ''}''\<close>

text \<open>
  \<^verbatim>\<open>
  test_data_json = test_data.to_json(orient="records", indent=4)
  data = (
      '{ \
            "Inputs": {"data": '
      + test_data_json
      + '}, \
            "GlobalParameters": { "method": "predict" } \
          }'
  )
  \<close>
  A backslash at the end of a line inside the quotes joins the lines. The text that
  \<open>to_json\<close> returns depends on the test data and is a parameter.
\<close>

definition bankmarketing_request :: "string \<Rightarrow> string" where
  \<open>bankmarketing_request test_data_json =
     ''{           "Inputs": {"data": '' @ test_data_json
     @ ''},           "GlobalParameters": { "method": "predict" }         }''\<close>

section \<open>Notions used in the proofs about the reader\<close>

text \<open>
  A text \<open>stops\<close> a number when it is empty or begins with a character that cannot
  continue one.
\<close>

definition stops :: "string \<Rightarrow> bool" where
  "stops t = (case t of [] \<Rightarrow> True
     | c # r \<Rightarrow> \<not> is_digit c \<and> c \<noteq> CHR ''.'' \<and> c \<noteq> CHR ''e'' \<and> c \<noteq> CHR ''E'')"

definition is_num :: "json \<Rightarrow> bool" where
  "is_num v = (case v of JInt i \<Rightarrow> True | JFloat x \<Rightarrow> True | _ \<Rightarrow> False)"

text \<open>One level of the reader, with the readers of the level below as arguments.\<close>

definition value_step ::
  "(string \<Rightarrow> (json list \<times> string) option) \<Rightarrow> (string \<Rightarrow> ((string \<times> json) list \<times> string) option)
     \<Rightarrow> string \<Rightarrow> (json \<times> string) option"
where
  "value_step E M s =
     (case s of
        [] \<Rightarrow> None
      | c # r \<Rightarrow>
          if c = CHR 0x22 then
            (case scan_string r of None \<Rightarrow> None | Some (str, r') \<Rightarrow> Some (JString str, r'))
          else if c = CHR ''['' then
            (case skip_ws r of
               [] \<Rightarrow> None
             | c' # r' \<Rightarrow>
                 if c' = CHR '']'' then Some (JArray [], r')
                 else (case E (c' # r') of
                         None \<Rightarrow> None
                       | Some (vs, r'') \<Rightarrow> Some (JArray vs, r'')))
          else if c = CHR ''{'' then
            (case skip_ws r of
               [] \<Rightarrow> None
             | c' # r' \<Rightarrow>
                 if c' = CHR ''}'' then Some (JObject [], r')
                 else (case M (c' # r') of
                         None \<Rightarrow> None
                       | Some (kvs, r'') \<Rightarrow> Some (JObject kvs, r'')))
          else parse_atom s)"

definition elements_step ::
  "(string \<Rightarrow> (json \<times> string) option) \<Rightarrow> (string \<Rightarrow> (json list \<times> string) option)
     \<Rightarrow> string \<Rightarrow> (json list \<times> string) option"
where
  "elements_step V E s =
     (case V s of
        None \<Rightarrow> None
      | Some (v, r) \<Rightarrow>
          (case skip_ws r of
             [] \<Rightarrow> None
           | c # r' \<Rightarrow>
               if c = CHR '','' then
                 (case E (skip_ws r') of
                    None \<Rightarrow> None
                  | Some (vs, r'') \<Rightarrow> Some (v # vs, r''))
               else if c = CHR '']'' then Some ([v], r')
               else None))"

definition members_step ::
  "(string \<Rightarrow> (json \<times> string) option) \<Rightarrow> (string \<Rightarrow> ((string \<times> json) list \<times> string) option)
     \<Rightarrow> string \<Rightarrow> ((string \<times> json) list \<times> string) option"
where
  "members_step V M s =
     (case s of
        [] \<Rightarrow> None
      | q # r \<Rightarrow>
          if q \<noteq> CHR 0x22 then None
          else (case scan_string r of
                  None \<Rightarrow> None
                | Some (k, r1) \<Rightarrow>
                    (case skip_ws r1 of
                       [] \<Rightarrow> None
                     | c # r2 \<Rightarrow>
                         if c \<noteq> CHR '':'' then None
                         else (case V (skip_ws r2) of
                                 None \<Rightarrow> None
                               | Some (v, r3) \<Rightarrow>
                                   (case skip_ws r3 of
                                      [] \<Rightarrow> None
                                    | c' # r4 \<Rightarrow>
                                        if c' = CHR '','' then
                                          (case M (skip_ws r4) of
                                             None \<Rightarrow> None
                                           | Some (kvs, r5) \<Rightarrow> Some ((k, v) # kvs, r5))
                                        else if c' = CHR ''}'' then Some ([(k, v)], r4)
                                        else None)))))"

definition below :: "('a \<Rightarrow> 'b option) \<Rightarrow> ('a \<Rightarrow> 'b option) \<Rightarrow> bool" where
  "below f g = (\<forall>x y. f x = Some y \<longrightarrow> g x = Some y)"

text \<open>
  Reading a value does not look beyond it: text appended after what was left is left
  as well. After a number this needs what follows not to continue the number.
\<close>

definition local_value :: "(string \<Rightarrow> (json \<times> string) option) \<Rightarrow> bool" where
  "local_value V =
     (V [] = None \<and>
      (\<forall>s v r t. V s = Some (v, r) \<longrightarrow> (is_num v \<longrightarrow> stops (r @ t))
         \<longrightarrow> V (s @ t) = Some (v, r @ t)))"

definition local_list :: "(string \<Rightarrow> ('a \<times> string) option) \<Rightarrow> bool" where
  "local_list F =
     (F [] = None \<and> (\<forall>s x r t. F s = Some (x, r) \<longrightarrow> F (s @ t) = Some (x, r @ t)))"

definition number_text :: "(real \<Rightarrow> string) \<Rightarrow> pyval \<Rightarrow> json \<Rightarrow> bool" where
  "number_text fr p j = (scan_number (json_dumps fr p) = Some (j, []))"

section \<open>Sample inputs\<close>

text \<open>Concrete classifiers, batches and renderings, on which the theorems are instantiated.\<close>

definition ex_batch :: DataFrame where
  "ex_batch = \<lparr>index_len = 2, columns = [(''age'', [PInt 63, PInt 41]), (''oldpeak'', [PFloat 2.3, PFloat 0.5])]\<rparr>"

definition ex_proba :: ndarray where
  "ex_proba = \<lparr>ncols = 2, rows = [[0.25, 0.75], [0.5, 0.5]]\<rparr>"

definition ex_xgb :: "unit xgboost" where
  "ex_xgb = \<lparr>XGBClassifier = (), load_model = (\<lambda>m path. (Inr (), m)),
     predict_proba = (\<lambda>m b. (Inr ex_proba, m))\<rparr>"

definition ex_xgb_raising :: "exn \<Rightarrow> unit xgboost" where
  "ex_xgb_raising e = \<lparr>XGBClassifier = (), load_model = (\<lambda>m path. (Inr (), m)),
     predict_proba = (\<lambda>m b. (Inl e, m))\<rparr>"


definition ex_py :: py_str where
  "ex_py = \<lparr>float_repr = (\<lambda>x. if x = 0.75 then ''0.75'' else if x = 0.5 then ''0.5'' else ''0.25''),
            frame_str = (\<lambda>df. ''frame'')\<rparr>"


definition ex_compute :: "exn + AmlCompute \<Rightarrow> compute_operations" where
  "ex_compute found =
     \<lparr>compute_get = (\<lambda>n. found),
      compute_begin_create_or_update = (\<lambda>c. Inr (LROPoller c))\<rparr>"

definition ex_client :: ml_client where
  "ex_client =
     \<lparr>models_list = (\<lambda>n. Inr [\<lparr>model_name = n, version = ''2''\<rparr>,
                              \<lparr>model_name = n, version = ''10''\<rparr>,
                              \<lparr>model_name = n, version = ''9''\<rparr>]),
      models_get = (\<lambda>n v. Inr \<lparr>model_name = n, version = str_int v\<rparr>),
      begin_create_or_update_result = (\<lambda>d. Inr d)\<rparr>"

definition ex_float :: "string \<Rightarrow> real option" where
  "ex_float s =
     (if s = ''0.2'' then Some 0.2
      else if s = ''0.25'' then Some 0.25
      else if s = ''0.5'' then Some 0.5
      else if s = ''0.75'' then Some 0.75
      else None)"

definition ex_test_data_json :: string where
  \<open>ex_test_data_json = ''[{"age":57,"job":"technician"}]''\<close>

section \<open>Properties of the scoring entry points\<close>

lemma argmax_loop_inv:
  assumes "length pre = i" "bi < i" "pre ! bi = b"
    and "\<forall>j<i. pre ! j \<le> b" "\<forall>j<bi. pre ! j < b"
  shows "argmax_loop xs i bi b < length (pre @ xs)
       \<and> (pre @ xs) ! argmax_loop xs i bi b = max_loop xs b
       \<and> (\<forall>j<length (pre @ xs). (pre @ xs) ! j \<le> max_loop xs b)
       \<and> (\<forall>j<argmax_loop xs i bi b. (pre @ xs) ! j < max_loop xs b)"
  using assms
proof (induction xs arbitrary: pre i bi b)
  case Nil
  then show ?case by simp
next
  case (Cons x xs)
  let ?pre = "pre @ [x]"
  show ?case
  proof (cases "b < x")
    case True
    have "argmax_loop xs (Suc i) i x < length (?pre @ xs)
       \<and> (?pre @ xs) ! argmax_loop xs (Suc i) i x = max_loop xs x
       \<and> (\<forall>j<length (?pre @ xs). (?pre @ xs) ! j \<le> max_loop xs x)
       \<and> (\<forall>j<argmax_loop xs (Suc i) i x. (?pre @ xs) ! j < max_loop xs x)"
    proof (rule Cons.IH)
      show "length ?pre = Suc i" using Cons.prems by simp
      show "i < Suc i" by simp
      show "?pre ! i = x" using Cons.prems(1) by (metis nth_append_length)
      show "\<forall>j<Suc i. ?pre ! j \<le> x"
        using Cons.prems True by (auto simp: nth_append less_Suc_eq intro: less_imp_le order_trans)
      show "\<forall>j<i. ?pre ! j < x"
        using Cons.prems True by (auto simp: nth_append intro: le_less_trans)
    qed
    with True show ?thesis by simp
  next
    case False
    have "argmax_loop xs (Suc i) bi b < length (?pre @ xs)
       \<and> (?pre @ xs) ! argmax_loop xs (Suc i) bi b = max_loop xs b
       \<and> (\<forall>j<length (?pre @ xs). (?pre @ xs) ! j \<le> max_loop xs b)
       \<and> (\<forall>j<argmax_loop xs (Suc i) bi b. (?pre @ xs) ! j < max_loop xs b)"
    proof (rule Cons.IH)
      show "length ?pre = Suc i" using Cons.prems by simp
      show "bi < Suc i" using Cons.prems by simp
      show "?pre ! bi = b" using Cons.prems by (simp add: nth_append)
      show "\<forall>j<Suc i. ?pre ! j \<le> b"
        using Cons.prems False by (auto simp: nth_append less_Suc_eq)
      show "\<forall>j<bi. ?pre ! j < b"
        using Cons.prems by (auto simp: nth_append)
    qed
    with False show ?thesis by simp
  qed
qed

lemma argmax_row_props:
  assumes "r \<noteq> []"
  shows "argmax_row r < length r"
    and "r ! argmax_row r = max_row r"
    and "\<forall>j<length r. r ! j \<le> max_row r"
    and "\<forall>j<argmax_row r. r ! j < max_row r"
proof -
  from assms obtain x xs where r: "r = x # xs" by (cases r) auto
  have "argmax_loop xs 1 0 x < length ([x] @ xs)
       \<and> ([x] @ xs) ! argmax_loop xs 1 0 x = max_loop xs x
       \<and> (\<forall>j<length ([x] @ xs). ([x] @ xs) ! j \<le> max_loop xs x)
       \<and> (\<forall>j<argmax_loop xs 1 0 x. ([x] @ xs) ! j < max_loop xs x)"
    by (rule argmax_loop_inv) auto
  then show "argmax_row r < length r"
    and "r ! argmax_row r = max_row r"
    and "\<forall>j<length r. r ! j \<le> max_row r"
    and "\<forall>j<argmax_row r. r ! j < max_row r"
    by (simp_all add: r argmax_row_def max_row_def)
qed

lemma max_row_in: "r \<noteq> [] \<Longrightarrow> max_row r \<in> set r"
  using argmax_row_props(1,2) [of r] by (metis nth_mem)

lemma max_row_Max: "r \<noteq> [] \<Longrightarrow> max_row r = Max (set r)"
proof -
  assume r: "r \<noteq> []"
  have "Max (set r) = max_row r"
  proof (rule Max_eqI)
    show "finite (set r)" by simp
    show "\<And>y. y \<in> set r \<Longrightarrow> y \<le> max_row r"
      using argmax_row_props(3) [OF r] by (auto simp: in_set_conv_nth)
    show "max_row r \<in> set r" using r by (rule max_row_in)
  qed
  then show ?thesis by simp
qed

lemma predict_ok:
  assumes "model self = Some m" "predict_proba xgb m batch = (Inr P, m')" "0 < ncols P"
  shows "predict xgb self context batch =
         (Inr (Frame \<lparr>index_len = length (rows P),
            columns = [(''class'', map (\<lambda>r. PInt (int (argmax_row r))) (rows P)),
                       (''confidence'', map (\<lambda>r. PFloat (max_row r)) (rows P))]\<rparr>),
          self\<lparr>model := Some m'\<rparr>)"
  using assms
  by (simp add: predict_def argmax_axis1_def max_axis1_def DataFrame_of_dict_def
      tolist_int_def tolist_float_def comp_def)

lemma run_ok:
  assumes "MODEL g = Some m" "predict_proba xgb m batch = (Inr P, m')" "0 < ncols P"
  shows "run xgb py g batch =
         (Inr (Str (json_dumps (float_repr py)
            (PDict [(''class'', PList (map (\<lambda>r. PInt (int (argmax_row r))) (rows P))),
                    (''confidence'', PList (map (\<lambda>r. PFloat (max_row r)) (rows P)))]))),
          g\<lparr>MODEL := Some m'\<rparr>)"
  using assms
  by (simp add: run_def run_try_def argmax_axis1_def max_axis1_def
      tolist_int_def tolist_float_def comp_def)

lemma row_nonempty: "wf_ndarray P \<Longrightarrow> 0 < ncols P \<Longrightarrow> i < length (rows P) \<Longrightarrow> rows P ! i \<noteq> []"
  by (auto simp: wf_ndarray_def list_all_length)

lemma row_length: "wf_ndarray P \<Longrightarrow> i < length (rows P) \<Longrightarrow> length (rows P ! i) = ncols P"
  by (auto simp: wf_ndarray_def list_all_length)

text \<open>
  C1. When \<open>predict_proba\<close> returns a probability matrix (a well-formed array with at
  least one class column), \<open>ModelWrapper.predict\<close> returns a frame and \<open>run\<close> a JSON text
  built from the same two lists: for every row \<open>i\<close>, \<open>class\<close> is an index into the row
  at which the row holds its maximum (the first such index, as \<open>argmax\<close> has it) and
  \<open>confidence\<close> is that maximum, which lies in \<open>[0, 1]\<close> when every entry of the row does.
\<close>

theorem predict_class_confidence:
  assumes "model self = Some m" and "MODEL g = Some m"
    and "predict_proba xgb m batch = (Inr P, m')" and "wf_ndarray P" and "0 < ncols P"
  shows "\<exists>classes confidence.
      fst (predict xgb self context batch) =
        Inr (Frame \<lparr>index_len = length (rows P),
                    columns = [(''class'', map (\<lambda>c. PInt (int c)) classes),
                               (''confidence'', map PFloat confidence)]\<rparr>)
    \<and> fst (run xgb py g batch) =
        Inr (Str (json_dumps (float_repr py)
          (PDict [(''class'', PList (map (\<lambda>c. PInt (int c)) classes)),
                  (''confidence'', PList (map PFloat confidence))])))
    \<and> length classes = length (rows P) \<and> length confidence = length (rows P)
    \<and> (\<forall>i<length (rows P).
          classes ! i < ncols P
        \<and> rows P ! i ! (classes ! i) = confidence ! i
        \<and> confidence ! i = Max (set (rows P ! i))
        \<and> (\<forall>j<classes ! i. rows P ! i ! j < confidence ! i)
        \<and> ((\<forall>p\<in>set (rows P ! i). 0 \<le> p \<and> p \<le> 1)
              \<longrightarrow> 0 \<le> confidence ! i \<and> confidence ! i \<le> 1))"
proof (intro exI conjI allI impI)
  let ?cs = "map argmax_row (rows P)" and ?xs = "map max_row (rows P)"
  show "fst (predict xgb self context batch) =
        Inr (Frame \<lparr>index_len = length (rows P),
                    columns = [(''class'', map (\<lambda>c. PInt (int c)) ?cs),
                               (''confidence'', map PFloat ?xs)]\<rparr>)"
    using predict_ok [OF assms(1,3,5)] by (simp add: comp_def)
  show "fst (run xgb py g batch) =
        Inr (Str (json_dumps (float_repr py)
          (PDict [(''class'', PList (map (\<lambda>c. PInt (int c)) ?cs)),
                  (''confidence'', PList (map PFloat ?xs))])))"
    using run_ok [OF assms(2,3,5)] by (simp add: comp_def)
  show "length ?cs = length (rows P)" "length ?xs = length (rows P)" by simp_all
  fix i assume i: "i < length (rows P)"
  let ?r = "rows P ! i"
  have ne: "?r \<noteq> []" using assms(4,5) i by (rule row_nonempty)
  have len: "length ?r = ncols P" using assms(4) i by (rule row_length)
  show "?cs ! i < ncols P" using argmax_row_props(1) [OF ne] i len by simp
  show "?r ! (?cs ! i) = ?xs ! i" using argmax_row_props(2) [OF ne] i by simp
  show "?xs ! i = Max (set ?r)" using max_row_Max [OF ne] i by simp
  show "\<And>j. j < ?cs ! i \<Longrightarrow> ?r ! j < ?xs ! i"
    using argmax_row_props(4) [OF ne] i by simp
  assume "\<forall>p\<in>set ?r. 0 \<le> p \<and> p \<le> 1"
  then show "0 \<le> ?xs ! i" "?xs ! i \<le> 1"
    using max_row_in [OF ne] i by auto
qed


theorem predict_class_confidence_witness:
  "model \<lparr>model = Some ()\<rparr> = Some ()
   \<and> MODEL \<lparr>MODEL = Some (), logging = []\<rparr> = Some ()
   \<and> predict_proba ex_xgb () ex_batch = (Inr ex_proba, ())
   \<and> wf_ndarray ex_proba
   \<and> 0 < ncols ex_proba
   \<and> (\<exists>classes confidence.
      fst (predict ex_xgb \<lparr>model = Some ()\<rparr> \<lparr>artifacts = []\<rparr> ex_batch) =
        Inr (Frame \<lparr>index_len = length (rows ex_proba),
                    columns = [(''class'', map (\<lambda>c. PInt (int c)) classes),
                               (''confidence'', map PFloat confidence)]\<rparr>)
    \<and> fst (run ex_xgb ex_py \<lparr>MODEL = Some (), logging = []\<rparr> ex_batch) =
        Inr (Str (json_dumps (float_repr ex_py)
          (PDict [(''class'', PList (map (\<lambda>c. PInt (int c)) classes)),
                  (''confidence'', PList (map PFloat confidence))])))
    \<and> length classes = length (rows ex_proba) \<and> length confidence = length (rows ex_proba)
    \<and> (\<forall>i<length (rows ex_proba).
          classes ! i < ncols ex_proba
        \<and> rows ex_proba ! i ! (classes ! i) = confidence ! i
        \<and> confidence ! i = Max (set (rows ex_proba ! i))
        \<and> (\<forall>j<classes ! i. rows ex_proba ! i ! j < confidence ! i)
        \<and> ((\<forall>p\<in>set (rows ex_proba ! i). 0 \<le> p \<and> p \<le> 1)
              \<longrightarrow> 0 \<le> confidence ! i \<and> confidence ! i \<le> 1)))"
proof -
  have h1: "model \<lparr>model = Some ()\<rparr> = Some ()" by simp
  have h2: "MODEL \<lparr>MODEL = Some (), logging = []\<rparr> = Some ()" by simp
  have h3: "predict_proba ex_xgb () ex_batch = (Inr ex_proba, ())" by (simp add: ex_xgb_def)
  have h4: "wf_ndarray ex_proba" by (simp add: wf_ndarray_def ex_proba_def)
  have h5: "0 < ncols ex_proba" by (simp add: ex_proba_def)
  note c = predict_class_confidence [OF h1 h2 h3 h4 h5, of "\<lparr>artifacts = []\<rparr>" ex_py]
  show ?thesis by (intro conjI h1 h2 h3 h4 h5 c)
qed

text \<open>
  C2. For a batch of \<open>N\<close> rows on which \<open>predict_proba\<close> returns a probability matrix of
  \<open>N\<close> rows, the frame returned by \<open>ModelWrapper.predict\<close> has an index of length \<open>N\<close> and
  exactly the columns \<open>class\<close> and \<open>confidence\<close>, in this order, each with \<open>N\<close> cells.
\<close>

theorem predict_shape:
  assumes "model self = Some m" and "predict_proba xgb m batch = (Inr P, m')"
    and "length (rows P) = index_len batch" and "0 < ncols P"
  shows "\<exists>df. fst (predict xgb self context batch) = Inr (Frame df)
     \<and> index_len df = index_len batch
     \<and> column_names df = [''class'', ''confidence'']
     \<and> list_all (\<lambda>(name, cells). length cells = index_len batch) (columns df)"
  using assms predict_ok [OF assms(1,2,4), of "context"]
  by (simp add: column_names_def)

theorem predict_shape_witness:
  "model \<lparr>model = Some ()\<rparr> = Some ()
   \<and> predict_proba ex_xgb () ex_batch = (Inr ex_proba, ())
   \<and> length (rows ex_proba) = index_len ex_batch
   \<and> 0 < ncols ex_proba
   \<and> (\<exists>df. fst (predict ex_xgb \<lparr>model = Some ()\<rparr> \<lparr>artifacts = []\<rparr> ex_batch) = Inr (Frame df)
     \<and> index_len df = index_len ex_batch
     \<and> column_names df = [''class'', ''confidence'']
     \<and> list_all (\<lambda>(name, cells). length cells = index_len ex_batch) (columns df))"
proof -
  have h1: "model \<lparr>model = Some ()\<rparr> = Some ()" by simp
  have h2: "predict_proba ex_xgb () ex_batch = (Inr ex_proba, ())" by (simp add: ex_xgb_def)
  have h3: "length (rows ex_proba) = index_len ex_batch" by (simp add: ex_batch_def ex_proba_def)
  have h4: "0 < ncols ex_proba" by (simp add: ex_proba_def)
  note c = predict_shape [OF h1 h2 h3 h4, of "\<lparr>artifacts = []\<rparr>"]
  show ?thesis by (intro conjI h1 h2 h3 h4 c)
qed



text \<open>
  The scoring script's \<open>run\<close> does not re-raise a \<open>RuntimeError\<close> of the classifier: its
  \<open>except RuntimeError\<close> clause logs the message and returns a string.
\<close>

theorem run_catches_RuntimeError:
  "predict_proba (ex_xgb_raising (Exn RuntimeError ''boom'')) () ex_batch
     = (Inl (Exn RuntimeError ''boom''), ())
   \<and> run (ex_xgb_raising (Exn RuntimeError ''boom'')) ex_py
         \<lparr>MODEL = Some (), logging = []\<rparr> ex_batch
     = (Inr (Str ''Input frame. Exception was: boom''),
        \<lparr>MODEL = Some (), logging = [''[ERR] Exception happened: boom'']\<rparr>)"
  by (simp add: run_def run_try_def ex_xgb_raising_def ex_py_def isinstance_def)

text \<open>
  C5, as the code has it. When \<open>predict_proba\<close> raises \<open>e\<close>: \<open>ModelWrapper.predict\<close>
  raises \<open>e\<close>, and nothing but the classifier, as the call left it, has changed; \<open>run\<close>
  raises \<open>e\<close> when \<open>e\<close> is not a \<open>RuntimeError\<close>, and otherwise logs an error record and
  returns the string \<open>Input <data>. Exception was: <message>\<close>.
\<close>

theorem scoring_exception_propagation:
  assumes "predict_proba xgb m batch = (Inl e, m')"
  shows "(model self = Some m \<longrightarrow>
            predict xgb self context batch = (Inl e, self\<lparr>model := Some m'\<rparr>))
    \<and> (MODEL g = Some m \<and> \<not> isinstance e RuntimeError
          \<longrightarrow> run xgb py g batch = (Inl e, g\<lparr>MODEL := Some m'\<rparr>))
    \<and> (MODEL g = Some m \<and> isinstance e RuntimeError
          \<longrightarrow> run xgb py g batch =
              (Inr (Str (''Input '' @ frame_str py batch @ ''. Exception was: '' @ exn_str e)),
               g\<lparr>MODEL := Some m',
                 logging := logging g @ [''[ERR] Exception happened: '' @ exn_str e]\<rparr>))"
  using assms by (simp add: predict_def run_def run_try_def)

theorem scoring_exception_propagation_witness:
  "predict_proba (ex_xgb_raising (Exn XGBoostError ''bad shape'')) () ex_batch
     = (Inl (Exn XGBoostError ''bad shape''), ())
   \<and> predict (ex_xgb_raising (Exn XGBoostError ''bad shape'')) \<lparr>model = Some ()\<rparr>
        \<lparr>artifacts = []\<rparr> ex_batch = (Inl (Exn XGBoostError ''bad shape''), \<lparr>model = Some ()\<rparr>)
   \<and> run (ex_xgb_raising (Exn XGBoostError ''bad shape'')) ex_py
        \<lparr>MODEL = Some (), logging = []\<rparr> ex_batch
       = (Inl (Exn XGBoostError ''bad shape''), \<lparr>MODEL = Some (), logging = []\<rparr>)"
proof -
  let ?e = "Exn XGBoostError ''bad shape''"
  have h: "predict_proba (ex_xgb_raising ?e) () ex_batch = (Inl ?e, ())"
    by (simp add: ex_xgb_raising_def)
  have n: "\<not> isinstance ?e RuntimeError" by (simp add: isinstance_def)
  show ?thesis
    using scoring_exception_propagation [OF h, of "\<lparr>model = Some ()\<rparr>" "\<lparr>artifacts = []\<rparr>"
        "\<lparr>MODEL = Some (), logging = []\<rparr>" ex_py] h n
    by simp
qed

section \<open>Properties of the notebook cells\<close>

lemma py_max_loop_Max: "py_max_loop xs b = Max (set (b # xs))"
proof (induction xs arbitrary: b)
  case Nil
  then show ?case by simp
next
  case (Cons x xs)
  show ?case
  proof (cases "b < x")
    case True
    have "Max (insert b (insert x (set xs))) = max b (Max (insert x (set xs)))"
      by (rule Max_insert) simp_all
    moreover have "x \<le> Max (insert x (set xs))" by (rule Max_ge) simp_all
    then have "b \<le> Max (insert x (set xs))" using True by linarith
    ultimately have "Max (insert b (insert x (set xs))) = Max (insert x (set xs))"
      by (simp add: max_absorb2)
    with True Cons.IH [of x] show ?thesis by simp
  next
    case False
    have "Max (insert x (insert b (set xs))) = max x (Max (insert b (set xs)))"
      by (rule Max_insert) simp_all
    moreover have "b \<le> Max (insert b (set xs))" by (rule Max_ge) simp_all
    then have "x \<le> Max (insert b (set xs))" using False by linarith
    ultimately have "Max (insert x (insert b (set xs))) = Max (insert b (set xs))"
      by (simp add: max_absorb2)
    then have "Max (insert b (insert x (set xs))) = Max (insert b (set xs))"
      by (simp add: insert_commute)
    with False Cons.IH [of b] show ?thesis by simp
  qed
qed

lemma int_versions_all:
  "\<forall>m\<in>set ms. py_int (version m) \<noteq> None
   \<Longrightarrow> int_versions ms = Inr (map (\<lambda>m. the (py_int (version m))) ms)"
  by (induction ms) auto

text \<open>
  A \<open>KeyboardInterrupt\<close> raised during the lookup is no \<open>Exception\<close>: it leaves the cell and
  nothing is created.
\<close>

theorem provision_compute_KeyboardInterrupt:
  "compute_get (ex_compute (Inl (Exn KeyboardInterrupt []))) cpu_compute_target
     = Inl (Exn KeyboardInterrupt [])
   \<and> provision_compute (ex_compute (Inl (Exn KeyboardInterrupt [])))
     = \<lparr>raised = Some (Exn KeyboardInterrupt []), cpu_cluster = None,
        compute_calls = [Get ''cpu-cluster''], printed = []\<rparr>"
  by (simp add: provision_compute_def ex_compute_def isinstance_def cpu_compute_target_def)

text \<open>
  C4, as the code has it. If the lookup raises an exception that is an instance of
  \<open>Exception\<close>, the cell builds the configuration (name \<open>cpu-cluster\<close>, type
  \<open>amlcompute\<close>, size \<open>STANDARD_DS3_V2\<close>, between 0 and 4 instances, 180 seconds of idle
  time, tier \<open>Dedicated\<close>) and submits it with \<open>begin_create_or_update\<close>. If the lookup
  succeeds, the cluster found is bound to \<open>cpu_cluster\<close> and the lookup is the only call.
  An exception outside \<open>Exception\<close> leaves the cell, and the lookup is the only call.
\<close>

theorem provision_compute_cases:
  "(compute_get ops cpu_compute_target = Inl e \<and> isinstance e Exception \<longrightarrow>
      compute_calls (provision_compute ops) =
        [Get ''cpu-cluster'',
         Begin_create_or_update
           \<lparr>compute_name = ''cpu-cluster'', compute_type = ''amlcompute'',
            compute_size = ''STANDARD_DS3_V2'', min_instances = 0, max_instances = 4,
            idle_time_before_scale_down = 180, tier = ''Dedicated''\<rparr>])
   \<and> (compute_get ops cpu_compute_target = Inr found \<longrightarrow>
      compute_calls (provision_compute ops) = [Get ''cpu-cluster'']
      \<and> cpu_cluster (provision_compute ops) = Some (Compute found)
      \<and> raised (provision_compute ops) = None)
   \<and> (compute_get ops cpu_compute_target = Inl e \<and> \<not> isinstance e Exception \<longrightarrow>
      compute_calls (provision_compute ops) = [Get ''cpu-cluster'']
      \<and> raised (provision_compute ops) = Some e)"
  by (simp add: provision_compute_def print_cluster_def new_cpu_cluster_def
      cpu_compute_target_def split: sum.split prod.split)

theorem provision_compute_cases_witness:
  "compute_get (ex_compute (Inl (Exn ResourceNotFoundError ''no such compute''))) cpu_compute_target
     = Inl (Exn ResourceNotFoundError ''no such compute'')
   \<and> isinstance (Exn ResourceNotFoundError ''no such compute'') Exception
   \<and> compute_calls (provision_compute (ex_compute (Inl (Exn ResourceNotFoundError ''no such compute'')))) =
        [Get ''cpu-cluster'',
         Begin_create_or_update
           \<lparr>compute_name = ''cpu-cluster'', compute_type = ''amlcompute'',
            compute_size = ''STANDARD_DS3_V2'', min_instances = 0, max_instances = 4,
            idle_time_before_scale_down = 180, tier = ''Dedicated''\<rparr>]
   \<and> compute_get (ex_compute (Inr new_cpu_cluster)) cpu_compute_target = Inr new_cpu_cluster
   \<and> compute_calls (provision_compute (ex_compute (Inr new_cpu_cluster))) = [Get ''cpu-cluster'']
   \<and> cpu_cluster (provision_compute (ex_compute (Inr new_cpu_cluster))) = Some (Compute new_cpu_cluster)
   \<and> raised (provision_compute (ex_compute (Inr new_cpu_cluster))) = None"
proof -
  let ?e = "Exn ResourceNotFoundError ''no such compute''"
  have h1: "compute_get (ex_compute (Inl ?e)) cpu_compute_target = Inl ?e"
    by (simp add: ex_compute_def)
  have h2: "isinstance ?e Exception" by (simp add: isinstance_def)
  have h3: "compute_get (ex_compute (Inr new_cpu_cluster)) cpu_compute_target = Inr new_cpu_cluster"
    by (simp add: ex_compute_def)
  show ?thesis
    using provision_compute_cases [of "ex_compute (Inl ?e)" ?e new_cpu_cluster]
      provision_compute_cases [of "ex_compute (Inr new_cpu_cluster)" ?e new_cpu_cluster]
      h1 h2 h3
    by simp
qed

lemma int_versions_not_an_integer:
  assumes "m \<in> set ms" and "py_int (version m) = None"
  shows "int_versions ms = Inl (Exn ValueError ''invalid literal for int() with base 10'')"
  using assms by (induction ms) (auto split: option.split sum.split)

text \<open>
  A listed version that \<open>int\<close> does not read ends the cell at the list comprehension,
  with \<open>ValueError\<close>: no model is fetched and nothing is deployed. The separator U+001F is
  no whitespace for \<open>int\<close>, so a version made of it and a digit is such a version.
\<close>

lemma deploy_latest_not_an_integer:
  assumes "models_list client registered_model_name = Inr ms"
    and "m \<in> set ms" and "py_int (version m) = None"
  shows "deploy_latest client online_endpoint_name =
           (Inl (Exn ValueError ''invalid literal for int() with base 10''),
            [Models_list ''credit_defaults_model''])"
  using assms(1) int_versions_not_an_integer [OF assms(2,3)]
  by (simp add: deploy_latest_def latest_model_version_def registered_model_name_def)

lemma py_int_unit_separator: "py_int [CHR 0x1F, CHR ''5''] = None"
  by (simp add: py_int_def int_max_str_digits_def strip_def is_space_def is_digit_def)

lemma py_int_spaces: "py_int [CHR 0x09, CHR ''-'', CHR ''1'', CHR ''_'', CHR ''0'', CHR 0xA0] = Some (- 10)"
  by (simp add: py_int_def int_max_str_digits_def strip_def is_space_def is_digit_def
      digit_val_def)

lemma py_int_digit_limit: "py_int (replicate 4301 (CHR ''0'')) = None"
  by (simp add: py_int_def int_max_str_digits_def strip_def is_space_def is_digit_def)

text \<open>
  C7. When the registry lists at least one model under \<open>credit_defaults_model\<close> and
  every listed version reads as an integer, the version chosen is the largest of these
  integers; the model is then fetched under that name and that version, and the model
  fetched is the one bound to the deployment \<open>blue\<close> that is submitted.
\<close>

theorem deploy_latest_highest_version:
  assumes "models_list client registered_model_name = Inr ms" and "ms \<noteq> []"
    and "\<forall>m\<in>set ms. py_int (version m) \<noteq> None"
  shows "latest_model_version client = Inr (Max ((\<lambda>m. the (py_int (version m))) ` set ms))
    \<and> (models_get client ''credit_defaults_model''
            (Max ((\<lambda>m. the (py_int (version m))) ` set ms)) = Inr fetched \<longrightarrow>
         snd (deploy_latest client online_endpoint_name) =
           [Models_list ''credit_defaults_model'',
            Models_get ''credit_defaults_model'' (Max ((\<lambda>m. the (py_int (version m))) ` set ms)),
            Deploy \<lparr>deployment_name = ''blue'', endpoint_name = online_endpoint_name,
                    deployment_model = fetched, instance_type = ''Standard_DS3_v2'',
                    instance_count = 1\<rparr>])"
proof -
  let ?f = "\<lambda>m. the (py_int (version m))"
  from assms(2) obtain m0 rest where ms: "ms = m0 # rest" by (cases ms) auto
  have "int_versions ms = Inr (map ?f ms)" using assms(3) by (rule int_versions_all)
  then have l: "latest_model_version client = Inr (Max (?f ` set ms))"
    using assms(1) by (simp add: latest_model_version_def py_max_def ms py_max_loop_Max)
  show ?thesis
    using l by (simp add: deploy_latest_def blue_deployment_def registered_model_name_def Let_def)
qed

theorem deploy_latest_highest_version_witness:
  "models_list ex_client registered_model_name
     = Inr [\<lparr>model_name = ''credit_defaults_model'', version = ''2''\<rparr>,
            \<lparr>model_name = ''credit_defaults_model'', version = ''10''\<rparr>,
            \<lparr>model_name = ''credit_defaults_model'', version = ''9''\<rparr>]
   \<and> latest_model_version ex_client = Inr 10
   \<and> snd (deploy_latest ex_client ''credit-endpoint-0123abcd'') =
           [Models_list ''credit_defaults_model'',
            Models_get ''credit_defaults_model'' 10,
            Deploy \<lparr>deployment_name = ''blue'', endpoint_name = ''credit-endpoint-0123abcd'',
                    deployment_model = \<lparr>model_name = ''credit_defaults_model'', version = ''10''\<rparr>,
                    instance_type = ''Standard_DS3_v2'', instance_count = 1\<rparr>]"
proof -
  let ?ms = "[\<lparr>model_name = ''credit_defaults_model'', version = ''2''\<rparr>,
            \<lparr>model_name = ''credit_defaults_model'', version = ''10''\<rparr>,
            \<lparr>model_name = ''credit_defaults_model'', version = ''9''\<rparr>]"
  have py: "py_int ''2'' = Some 2" "py_int ''10'' = Some 10" "py_int ''9'' = Some 9"
    by (simp_all add: py_int_def int_max_str_digits_def strip_def is_space_def is_digit_def
        digit_val_def)
  have h1: "models_list ex_client registered_model_name = Inr ?ms"
    by (simp add: ex_client_def registered_model_name_def)
  have h2: "?ms \<noteq> []" by simp
  have h3: "\<forall>m\<in>set ?ms. py_int (version m) \<noteq> None" by (simp add: py)
  have mx: "Max ((\<lambda>m. the (py_int (version m))) ` set ?ms) = 10" by (simp add: py)
  have g: "models_get ex_client ''credit_defaults_model'' 10
      = Inr \<lparr>model_name = ''credit_defaults_model'', version = ''10''\<rparr>"
    by (simp add: ex_client_def str_int_def digit_char_def str_nat.simps)
  show ?thesis
    using deploy_latest_highest_version [OF h1 h2 h3,
        of "\<lparr>model_name = ''credit_defaults_model'', version = ''10''\<rparr>" "''credit-endpoint-0123abcd''"]
      h1 g
    unfolding mx by simp
qed

section \<open>Properties of the command line\<close>

lemma store_keys: "map fst (store ns d v) = map fst ns"
  by (induction ns) (auto simp: store_def)

lemma consume_keys:
  "consume py_float ns extras toks = Inr (ns', extras') \<Longrightarrow> map fst ns' = map fst ns"
proof (induction py_float ns extras toks arbitrary: ns' extras' rule: consume.induct)
  case (1 py_float ns extras)
  then show ?case by simp
next
  case (2 py_float ns extras c s rest)
  show ?case
  proof (cases c)
    case Positional
    with 2 show ?thesis by simp
  next
    case Double_dash
    with 2 show ?thesis by simp
  next
    case (Optional a explicit_arg)
    with "2.prems" obtain v rest' x where
      t: "(case explicit_arg of Some (sep, v) \<Rightarrow> Some (v, rest) | None \<Rightarrow> take_value rest)
            = Some (v, rest')"
      and g: "get_value py_float (arg_type a) v = Some x"
      and c: "consume py_float (store ns (arg_dest a) x) extras rest' = Inr (ns', extras')"
      by (auto split: option.splits)
    from "2.IH"(3) [OF Optional t refl g c] show ?thesis by (simp add: store_keys)
  next
    case (Help_flag e)
    with 2 show ?thesis by simp
  next
    case Unknown_optional
    with 2 show ?thesis by simp
  next
    case Ambiguous
    with 2 show ?thesis by simp
  qed
qed

lemma take_value_unknown:
  "take_value toks = Some (v, rest) \<Longrightarrow> Unknown_optional \<in> fst ` set toks
   \<Longrightarrow> Unknown_optional \<in> fst ` set rest"
  by (induction toks rule: take_value.induct) auto

lemma consume_extras:
  "consume py_float ns extras toks = Inr (ns', extras')
   \<Longrightarrow> extras \<noteq> [] \<or> Unknown_optional \<in> fst ` set toks \<Longrightarrow> extras' \<noteq> []"
proof (induction py_float ns extras toks arbitrary: ns' extras' rule: consume.induct)
  case (1 py_float ns extras)
  then show ?case by simp
next
  case (2 py_float ns extras c s rest)
  show ?case
  proof (cases c)
    case Positional
    with 2 show ?thesis by simp
  next
    case Double_dash
    with 2 show ?thesis by simp
  next
    case (Optional a explicit_arg)
    with "2.prems" obtain v rest' x where
      t: "(case explicit_arg of Some (sep, v) \<Rightarrow> Some (v, rest) | None \<Rightarrow> take_value rest)
            = Some (v, rest')"
      and g: "get_value py_float (arg_type a) v = Some x"
      and c: "consume py_float (store ns (arg_dest a) x) extras rest' = Inr (ns', extras')"
      by (auto split: option.splits)
    from "2.prems"(2) Optional have "extras \<noteq> [] \<or> Unknown_optional \<in> fst ` set rest"
      by auto
    with t have "extras \<noteq> [] \<or> Unknown_optional \<in> fst ` set rest'"
      by (auto split: option.splits dest: take_value_unknown)
    with "2.IH"(3) [OF Optional t refl g c] show ?thesis by simp
  next
    case (Help_flag e)
    with 2 show ?thesis by simp
  next
    case Unknown_optional
    with 2 show ?thesis by simp
  next
    case Ambiguous
    with 2 show ?thesis by simp
  qed
qed

lemma fst_zip_classify:
  "fst ` set (zip (classify parser argv) argv) = set (classify parser argv)"
proof -
  have "length (classify parser argv) = length argv"
    by (induction argv) auto
  then have "map fst (zip (classify parser argv) argv) = classify parser argv"
    by simp
  then show ?thesis by (metis set_map)
qed

lemma parse_args_unknown:
  assumes "Unknown_optional \<in> set (classify parser argv)"
  shows "parse_args py_float parser argv \<noteq> Inr ns"
proof
  assume "parse_args py_float parser argv = Inr ns"
  then have "consume py_float (defaults parser) [] (zip (classify parser argv) argv) = Inr (ns, [])"
    by (auto simp: parse_args_def parse_known_args_def Let_def split: sum.splits if_splits)
  moreover have "Unknown_optional \<in> fst ` set (zip (classify parser argv) argv)"
    using assms by (simp add: fst_zip_classify)
  ultimately show False using consume_extras by blast
qed

lemma parse_args_keys:
  assumes "parse_args py_float parser argv = Inr ns"
  shows "map fst ns = map arg_dest parser"
proof -
  from assms have "consume py_float (defaults parser) [] (zip (classify parser argv) argv) = Inr (ns, [])"
    by (auto simp: parse_args_def parse_known_args_def Let_def split: sum.splits if_splits)
  then have "map fst ns = map fst (defaults parser)" by (rule consume_keys)
  then show ?thesis by (simp add: defaults_def comp_def)
qed

lemma value_Positional:
  "s = [] \<or> hd s \<noteq> CHR ''-'' \<Longrightarrow> parse_optional parser s = Positional \<and> s \<noteq> ''--''"
  by (auto simp: parse_optional_def)

lemmas option_simps =
  parse_optional_def help_options_def main_parser_def split_eq_def defaults_def
  get_value_def store_def

lemma classify_data [simp]: "parse_optional main_parser ''--data'' = Optional (main_parser ! 0) None"
  by (simp add: option_simps)

lemma classify_test_train_ratio [simp]:
  "parse_optional main_parser ''--test_train_ratio'' = Optional (main_parser ! 1) None"
  by (simp add: option_simps)

lemma classify_learning_rate [simp]:
  "parse_optional main_parser ''--learning_rate'' = Optional (main_parser ! 3) None"
  by (simp add: option_simps)

lemma classify_registered_model_name [simp]:
  "parse_optional main_parser ''--registered_model_name'' = Optional (main_parser ! 4) None"
  by (simp add: option_simps)

lemma data_or_name_filter:
  "filter (\<lambda>a. arg_option a = ''--data'' \<or> arg_option a = ''--registered_model_name'')
     main_parser = [main_parser ! 0, main_parser ! 4]"
  by (simp add: main_parser_def)

lemma data_or_name_cases:
  assumes "data_or_name a"
  shows "a = main_parser ! 0 \<or> a = main_parser ! 4"
proof -
  from assms have "a \<in> set (filter (\<lambda>a. arg_option a = ''--data''
      \<or> arg_option a = ''--registered_model_name'') main_parser)"
    unfolding data_or_name_def set_filter by blast
  then show ?thesis unfolding data_or_name_filter by simp
qed

lemma data_or_name_dest:
  "arg_dest (main_parser ! 0) = ''data''" "arg_dest (main_parser ! 4) = ''registered_model_name''"
  "arg_type (main_parser ! 0) = Str_type" "arg_type (main_parser ! 4) = Str_type"
  by (simp_all add: main_parser_def)

lemma store_data_or_name:
  assumes "data_or_name a"
  shows "\<exists>d' r'. store [(''data'', d), (''test_train_ratio'', t), (''n_estimators'', n),
                          (''learning_rate'', l), (''registered_model_name'', r)]
                     (arg_dest a) x =
                   [(''data'', d'), (''test_train_ratio'', t), (''n_estimators'', n),
                    (''learning_rate'', l), (''registered_model_name'', r')]"
  using data_or_name_cases [OF assms] by (auto simp: store_def data_or_name_dest)

lemma data_or_name_type: "data_or_name a \<Longrightarrow> arg_type a = Str_type"
  using data_or_name_cases [of a] by (auto simp: data_or_name_dest)
lemma consume_supplies:
  "supplies toks \<Longrightarrow>
     \<exists>d' r'. consume py_float
                [(''data'', d), (''test_train_ratio'', t), (''n_estimators'', n),
                 (''learning_rate'', l), (''registered_model_name'', r)] [] toks =
              Inr ([(''data'', d'), (''test_train_ratio'', t), (''n_estimators'', n),
                    (''learning_rate'', l), (''registered_model_name'', r')], [])"
proof (induction toks arbitrary: d r rule: supplies.induct)
  case 1
  show ?case by simp
next
  case (2 c s)
  then obtain a sep v where c: "c = Optional a (Some (sep, v))" and a: "data_or_name a"
    by (auto split: arg_class.splits)
  from store_data_or_name [OF a, of d t n l r "PStr v"] show ?case
    by (auto simp: c get_value_def data_or_name_type [OF a])
next
  case (3 c s c' s' rest)
  from "3.prems" obtain a e where c: "c = Optional a e" and a: "data_or_name a"
    by (auto split: arg_class.splits)
  show ?case
  proof (cases e)
    case None
    with "3.prems" c have c': "c' = Positional" and s: "supplies rest" by auto
    from store_data_or_name [OF a, of d t n l r "PStr s'"] obtain d1 r1 where
      st: "store [(''data'', d), (''test_train_ratio'', t), (''n_estimators'', n),
                  (''learning_rate'', l), (''registered_model_name'', r)] (arg_dest a) (PStr s') =
           [(''data'', d1), (''test_train_ratio'', t), (''n_estimators'', n),
            (''learning_rate'', l), (''registered_model_name'', r1)]"
      by blast
    have ne: "\<not> e \<noteq> None" using None by simp
    from "3.IH"(2) [OF c ne s, of d1 r1] obtain d' r' where
      "consume py_float
         [(''data'', d1), (''test_train_ratio'', t), (''n_estimators'', n),
          (''learning_rate'', l), (''registered_model_name'', r1)] [] rest =
       Inr ([(''data'', d'), (''test_train_ratio'', t), (''n_estimators'', n),
             (''learning_rate'', l), (''registered_model_name'', r')], [])"
      by auto
    then show ?thesis
      by (simp add: c None c' get_value_def data_or_name_type [OF a] st)
  next
    case (Some p)
    obtain sep v where p: "p = (sep, v)" by (cases p)
    from "3.prems" c Some have s: "supplies ((c', s') # rest)" by simp
    from store_data_or_name [OF a, of d t n l r "PStr v"] obtain d1 r1 where
      st: "store [(''data'', d), (''test_train_ratio'', t), (''n_estimators'', n),
                  (''learning_rate'', l), (''registered_model_name'', r)] (arg_dest a) (PStr v) =
           [(''data'', d1), (''test_train_ratio'', t), (''n_estimators'', n),
            (''learning_rate'', l), (''registered_model_name'', r1)]"
      by blast
    have ne: "e \<noteq> None" using Some by simp
    from "3.IH"(1) [OF c ne s, of d1 r1] obtain d' r' where
      "consume py_float
         [(''data'', d1), (''test_train_ratio'', t), (''n_estimators'', n),
          (''learning_rate'', l), (''registered_model_name'', r1)] [] ((c', s') # rest) =
       Inr ([(''data'', d'), (''test_train_ratio'', t), (''n_estimators'', n),
             (''learning_rate'', l), (''registered_model_name'', r')], [])"
      by auto
    then show ?thesis
      by (simp add: c Some p get_value_def data_or_name_type [OF a] st del: consume.simps(2))
         (simp add: get_value_def data_or_name_type [OF a] st)
  qed
qed

lemma supplies_not_Ambiguous: "supplies toks \<Longrightarrow> Ambiguous \<notin> fst ` set toks"
  by (induction toks rule: supplies.induct) (auto split: arg_class.splits if_splits)

lemma parse_args_supplies:
  assumes "supplies_only argv"
  shows "\<exists>d r. parse_args py_float main_parser argv =
           Inr [(''data'', d),
                (''test_train_ratio'', Some (PFloat 0.25)),
                (''n_estimators'', Some (PInt 100)),
                (''learning_rate'', Some (PFloat 0.1)),
                (''registered_model_name'', r)]"
proof -
  from assms have s: "supplies (zip (classify main_parser argv) argv)"
    by (simp add: supplies_only_def)
  from supplies_not_Ambiguous [OF s] have n: "Ambiguous \<notin> set (classify main_parser argv)"
    by (simp add: fst_zip_classify)
  have d: "defaults main_parser =
       [(''data'', None), (''test_train_ratio'', Some (PFloat 0.25)),
        (''n_estimators'', Some (PInt 100)), (''learning_rate'', Some (PFloat 0.1)),
        (''registered_model_name'', None)]"
    by (simp add: defaults_def main_parser_def)
  from consume_supplies [OF s, of py_float None "Some (PFloat 0.25)" "Some (PInt 100)"
      "Some (PFloat 0.1)" None]
  show ?thesis
    by (auto simp: parse_args_def parse_known_args_def n d)
qed

lemma consume_Inr_supplies:
  "consume py_float ns extras toks = Inr (ns', [])
   \<Longrightarrow> list_all (\<lambda>c. case c of Optional a e \<Rightarrow> data_or_name a | _ \<Rightarrow> True) (map fst toks)
   \<Longrightarrow> supplies toks"
proof (induction py_float ns extras toks arbitrary: ns' rule: consume.induct)
  case (1 py_float ns extras)
  show ?case by simp
next
  case (2 py_float ns extras c s rest)
  show ?case
  proof (cases c)
    case Positional
    with "2.prems"(1) consume_extras [of py_float ns "extras @ [s]" rest ns' "[]"]
    show ?thesis by simp
  next
    case Double_dash
    with "2.prems"(1) consume_extras [of py_float ns "extras @ [s]" rest ns' "[]"]
    show ?thesis by simp
  next
    case Unknown_optional
    with "2.prems"(1) consume_extras [of py_float ns "extras @ [s]" rest ns' "[]"]
    show ?thesis by simp
  next
    case Ambiguous
    with "2.prems"(1) show ?thesis by simp
  next
    case (Help_flag e)
    with "2.prems"(1) show ?thesis by simp
  next
    case (Optional a explicit_arg)
    with "2.prems"(1) obtain v rest' x where
      t: "(case explicit_arg of Some (sep, v) \<Rightarrow> Some (v, rest) | None \<Rightarrow> take_value rest)
            = Some (v, rest')"
      and g: "get_value py_float (arg_type a) v = Some x"
      and c: "consume py_float (store ns (arg_dest a) x) extras rest' = Inr (ns', [])"
      by (auto split: option.splits)
    from "2.prems"(2) Optional have a: "data_or_name a"
      and l: "list_all (\<lambda>c. case c of Optional a e \<Rightarrow> data_or_name a | _ \<Rightarrow> True) (map fst rest)"
      by simp_all
    show ?thesis
    proof (cases explicit_arg)
      case None
      with t have "take_value rest = Some (v, rest')" by simp
      then have r: "rest = (Positional, v) # rest'"
        by (cases rest rule: take_value.cases) auto
      with l have "list_all (\<lambda>c. case c of Optional a e \<Rightarrow> data_or_name a | _ \<Rightarrow> True) (map fst rest')"
        by simp
      from "2.IH"(3) [OF Optional t refl g c this] show ?thesis
        by (simp add: Optional None r a)
    next
      case (Some p)
      with t have r: "rest' = rest" by (auto split: prod.splits)
      from "2.IH"(3) [OF Optional t refl g c] l r have "supplies rest" by simp
      then show ?thesis
        by (cases rest) (auto simp: Optional Some a)
    qed
  qed
qed

lemma parse_args_Inr_supplies:
  assumes "parse_args py_float main_parser argv = Inr ns" and "names_only argv"
  shows "supplies_only argv"
proof -
  from assms(1) have "consume py_float (defaults main_parser) []
      (zip (classify main_parser argv) argv) = Inr (ns, [])"
    by (auto simp: parse_args_def parse_known_args_def Let_def split: sum.splits if_splits)
  moreover have "length (classify main_parser argv) = length argv"
    by (induction argv) auto
  then have "map fst (zip (classify main_parser argv) argv) = classify main_parser argv"
    by simp
  ultimately show ?thesis
    using assms(2) consume_Inr_supplies [of py_float "defaults main_parser" "[]"
        "zip (classify main_parser argv) argv" ns]
    by (simp add: supplies_only_def names_only_def)
qed

text \<open>
  A \<open>--\<close> is no value for an option, before the value or after it, and a letter after
  \<open>-h\<close> that is no flag does not keep the help flag from acting.
\<close>

lemma parse_args_double_dash:
  "parse_args py_float main_parser [''--data'', ''--'', ''x''] = Inl (exit_status 2)"
  "parse_args py_float main_parser [''--data'', ''x'', ''--''] = Inl (exit_status 2)"
proof -
  have x: "parse_optional main_parser ''x'' = Positional" by (simp add: parse_optional_def)
  show "parse_args py_float main_parser [''--data'', ''--'', ''x''] = Inl (exit_status 2)"
    by (simp add: parse_args_def parse_known_args_def)
  show "parse_args py_float main_parser [''--data'', ''x'', ''--''] = Inl (exit_status 2)"
    by (simp add: parse_args_def parse_known_args_def x)
       (simp add: main_parser_def defaults_def get_value_def store_def)
qed

lemma parse_args_help:
  "parse_args py_float main_parser [''-hx''] = Inl (exit_status 0)"
  "parse_args py_float main_parser [''--help=x''] = Inl (exit_status 2)"
  "parse_args py_float main_parser [''--data'', ''x'', ''-h'', ''--bogus''] = Inl (exit_status 0)"
proof -
  have c: "parse_optional main_parser ''-hx'' = Help_flag (Some ([], ''x''))"
    "parse_optional main_parser ''--help=x'' = Help_flag (Some (''='', ''x''))"
    "parse_optional main_parser ''-h'' = Help_flag None"
    "parse_optional main_parser ''--bogus'' = Unknown_optional"
    "parse_optional main_parser ''x'' = Positional"
    by (simp_all add: option_simps parse_abbreviation_def get_option_tuples_def
        negative_number_def is_digit_def)
  show "parse_args py_float main_parser [''-hx''] = Inl (exit_status 0)"
    by (simp add: parse_args_def parse_known_args_def c help_exit_def help_options_def)
  show "parse_args py_float main_parser [''--help=x''] = Inl (exit_status 2)"
    by (simp add: parse_args_def parse_known_args_def c help_exit_def)
  show "parse_args py_float main_parser [''--data'', ''x'', ''-h'', ''--bogus''] =
      Inl (exit_status 0)"
    by (simp add: parse_args_def parse_known_args_def c)
       (simp add: main_parser_def defaults_def get_value_def store_def help_exit_def)
qed

lemma parse_data_model:
  assumes "parse_optional main_parser d = Positional \<and> d \<noteq> ''--''"
    and "parse_optional main_parser r = Positional \<and> r \<noteq> ''--''"
  shows "parse_args py_float main_parser [''--data'', d, ''--registered_model_name'', r] =
       Inr [(''data'', Some (PStr d)),
            (''test_train_ratio'', Some (PFloat 0.25)),
            (''n_estimators'', Some (PInt 100)),
            (''learning_rate'', Some (PFloat 0.1)),
            (''registered_model_name'', Some (PStr r))]"
  using assms
  by (simp add: parse_args_def parse_known_args_def)
     (simp add: main_parser_def defaults_def get_value_def store_def)

lemma parse_model_data:
  assumes "parse_optional main_parser d = Positional \<and> d \<noteq> ''--''"
    and "parse_optional main_parser r = Positional \<and> r \<noteq> ''--''"
  shows "parse_args py_float main_parser [''--registered_model_name'', r, ''--data'', d] =
       Inr [(''data'', Some (PStr d)),
            (''test_train_ratio'', Some (PFloat 0.25)),
            (''n_estimators'', Some (PInt 100)),
            (''learning_rate'', Some (PFloat 0.1)),
            (''registered_model_name'', Some (PStr r))]"
  using assms
  by (simp add: parse_args_def parse_known_args_def)
     (simp add: main_parser_def defaults_def get_value_def store_def)

text \<open>
  C6, as the code has it. The parser of \<open>main.py\<close> declares exactly the options \<open>--data\<close>,
  \<open>--test_train_ratio\<close>, \<open>--n_estimators\<close>, \<open>--learning_rate\<close> and
  \<open>--registered_model_name\<close>, and a command line is parsed only into these five
  attributes and never when it holds an option the parser does not know. The three
  hyperparameters are optional, with the defaults 0.25 (a float), 100 (an int) and 0.1
  (a float). A command line that supplies only \<open>--data\<close> and \<open>--registered_model_name\<close>
  is parsed, with the hyperparameters at their defaults, when each option comes with
  its value: carried as \<open>--opt=value\<close>, or as the next string, which \<open>argparse\<close> must read
  as a value and not as an option or as \<open>--\<close>. Among the command lines that name no
  other option of the parser these are the only ones that are parsed. For
  \<open>--data d --registered_model_name r\<close>, in either order, the attributes are \<open>d\<close> and \<open>r\<close>.
  A value that looks like an option is refused: \<open>--data -x --registered_model_name m\<close>
  exits with status 2.
\<close>

theorem main_argparse:
  "map arg_option main_parser =
       [''--data'', ''--test_train_ratio'', ''--n_estimators'', ''--learning_rate'',
        ''--registered_model_name'']
   \<and> map (\<lambda>a. (arg_option a, arg_type a, arg_required a, arg_default a))
         (filter (\<lambda>a. arg_default a \<noteq> None) main_parser) =
       [(''--test_train_ratio'', Float_type, False, Some (PFloat 0.25)),
        (''--n_estimators'', Int_type, False, Some (PInt 100)),
        (''--learning_rate'', Float_type, False, Some (PFloat 0.1))]
   \<and> (\<forall>argv ns. parse_args py_float main_parser argv = Inr ns \<longrightarrow>
         map fst ns = [''data'', ''test_train_ratio'', ''n_estimators'', ''learning_rate'',
                       ''registered_model_name'']
         \<and> Unknown_optional \<notin> set (classify main_parser argv))
   \<and> (\<forall>argv. supplies_only argv \<longrightarrow>
         (\<exists>d' r'. parse_args py_float main_parser argv =
            Inr [(''data'', d'),
                 (''test_train_ratio'', Some (PFloat 0.25)),
                 (''n_estimators'', Some (PInt 100)),
                 (''learning_rate'', Some (PFloat 0.1)),
                 (''registered_model_name'', r')]))
   \<and> (\<forall>argv ns. parse_args py_float main_parser argv = Inr ns \<and> names_only argv \<longrightarrow>
         supplies_only argv)
   \<and> (parse_optional main_parser d = Positional \<and> d \<noteq> ''--''
        \<and> parse_optional main_parser r = Positional \<and> r \<noteq> ''--'' \<longrightarrow>
        parse_args py_float main_parser [''--data'', d, ''--registered_model_name'', r] =
          Inr [(''data'', Some (PStr d)),
               (''test_train_ratio'', Some (PFloat 0.25)),
               (''n_estimators'', Some (PInt 100)),
               (''learning_rate'', Some (PFloat 0.1)),
               (''registered_model_name'', Some (PStr r))]
        \<and> parse_args py_float main_parser [''--registered_model_name'', r, ''--data'', d] =
          Inr [(''data'', Some (PStr d)),
               (''test_train_ratio'', Some (PFloat 0.25)),
               (''n_estimators'', Some (PInt 100)),
               (''learning_rate'', Some (PFloat 0.1)),
               (''registered_model_name'', Some (PStr r))])"
proof (intro conjI allI impI)
  show "map arg_option main_parser =
       [''--data'', ''--test_train_ratio'', ''--n_estimators'', ''--learning_rate'',
        ''--registered_model_name'']"
    by (simp add: main_parser_def)
  show "map (\<lambda>a. (arg_option a, arg_type a, arg_required a, arg_default a))
         (filter (\<lambda>a. arg_default a \<noteq> None) main_parser) =
       [(''--test_train_ratio'', Float_type, False, Some (PFloat 0.25)),
        (''--n_estimators'', Int_type, False, Some (PInt 100)),
        (''--learning_rate'', Float_type, False, Some (PFloat 0.1))]"
    by (simp add: main_parser_def)
next
  fix argv ns
  assume p: "parse_args py_float main_parser argv = Inr ns"
  from parse_args_keys [OF p]
  show "map fst ns = [''data'', ''test_train_ratio'', ''n_estimators'', ''learning_rate'',
                       ''registered_model_name'']"
    by (simp add: main_parser_def)
  from p parse_args_unknown [of main_parser argv py_float ns]
  show "Unknown_optional \<notin> set (classify main_parser argv)" by blast
next
  fix argv
  assume "supplies_only argv"
  then show "\<exists>d' r'. parse_args py_float main_parser argv =
            Inr [(''data'', d'),
                 (''test_train_ratio'', Some (PFloat 0.25)),
                 (''n_estimators'', Some (PInt 100)),
                 (''learning_rate'', Some (PFloat 0.1)),
                 (''registered_model_name'', r')]"
    by (rule parse_args_supplies)
next
  fix argv ns
  assume "parse_args py_float main_parser argv = Inr ns \<and> names_only argv"
  then show "supplies_only argv"
    using parse_args_Inr_supplies by blast
next
  assume h: "parse_optional main_parser d = Positional \<and> d \<noteq> ''--''
        \<and> parse_optional main_parser r = Positional \<and> r \<noteq> ''--''"
  then have hd: "parse_optional main_parser d = Positional \<and> d \<noteq> ''--''"
    and hr: "parse_optional main_parser r = Positional \<and> r \<noteq> ''--''"
    by simp_all
  show "parse_args py_float main_parser [''--data'', d, ''--registered_model_name'', r] =
          Inr [(''data'', Some (PStr d)),
               (''test_train_ratio'', Some (PFloat 0.25)),
               (''n_estimators'', Some (PInt 100)),
               (''learning_rate'', Some (PFloat 0.1)),
               (''registered_model_name'', Some (PStr r))]"
    using hd hr by (rule parse_data_model)
  show "parse_args py_float main_parser [''--registered_model_name'', r, ''--data'', d] =
          Inr [(''data'', Some (PStr d)),
               (''test_train_ratio'', Some (PFloat 0.25)),
               (''n_estimators'', Some (PInt 100)),
               (''learning_rate'', Some (PFloat 0.1)),
               (''registered_model_name'', Some (PStr r))]"
    using hd hr by (rule parse_model_data)
qed

theorem main_argparse_witness:
  "supplies_only [''--data=-x'', ''--r'', ''-1'']
   \<and> (\<exists>d' r'. parse_args ex_float main_parser [''--data=-x'', ''--r'', ''-1''] =
          Inr [(''data'', d'),
               (''test_train_ratio'', Some (PFloat 0.25)),
               (''n_estimators'', Some (PInt 100)),
               (''learning_rate'', Some (PFloat 0.1)),
               (''registered_model_name'', r')])
   \<and> parse_optional main_parser ''credit.xls'' = Positional \<and> ''credit.xls'' \<noteq> ''--''
   \<and> parse_optional main_parser ''-1'' = Positional \<and> ''-1'' \<noteq> ''--''
   \<and> parse_args ex_float main_parser [''--data'', ''credit.xls'', ''--registered_model_name'', ''-1''] =
       Inr [(''data'', Some (PStr ''credit.xls'')),
            (''test_train_ratio'', Some (PFloat 0.25)),
            (''n_estimators'', Some (PInt 100)),
            (''learning_rate'', Some (PFloat 0.1)),
            (''registered_model_name'', Some (PStr ''-1''))]
   \<and> names_only [''--data'', ''credit.xls'', ''--registered_model_name'', ''-1'']
   \<and> supplies_only [''--data'', ''credit.xls'', ''--registered_model_name'', ''-1'']
   \<and> Unknown_optional \<notin> set (classify main_parser
         [''--data'', ''credit.xls'', ''--registered_model_name'', ''-1''])"
proof -
  have c1: "parse_optional main_parser ''--data=-x'' = Optional (main_parser ! 0) (Some (''='', ''-x''))"
    by (simp add: option_simps)
  have c2: "parse_optional main_parser ''--r'' = Optional (main_parser ! 4) None"
    by (simp add: option_simps parse_abbreviation_def get_option_tuples_def)
  have c3: "parse_optional main_parser ''-1'' = Positional"
    by (simp add: option_simps parse_abbreviation_def get_option_tuples_def negative_number_def
        is_digit_def)
  have c4: "parse_optional main_parser ''credit.xls'' = Positional"
    by (simp add: parse_optional_def)
  have dn: "data_or_name (main_parser ! 0)" "data_or_name (main_parser ! 4)"
    by (simp_all add: data_or_name_def main_parser_def)
  have h1: "supplies_only [''--data=-x'', ''--r'', ''-1'']"
    by (simp add: supplies_only_def c1 c2 c3 dn)
  have h2: "''credit.xls'' \<noteq> ''--''" by simp
  have h3: "''-1'' \<noteq> ''--''" by simp
  have h4: "names_only [''--data'', ''credit.xls'', ''--registered_model_name'', ''-1'']"
    by (simp add: names_only_def c3 c4 dn)
  note t = main_argparse [of ex_float "''credit.xls''" "''-1''"]
  from t h1 have g1: "\<exists>d' r'. parse_args ex_float main_parser [''--data=-x'', ''--r'', ''-1''] =
          Inr [(''data'', d'),
               (''test_train_ratio'', Some (PFloat 0.25)),
               (''n_estimators'', Some (PInt 100)),
               (''learning_rate'', Some (PFloat 0.1)),
               (''registered_model_name'', r')]"
    by blast
  from t c4 h2 c3 h3 have g2:
    "parse_args ex_float main_parser [''--data'', ''credit.xls'', ''--registered_model_name'', ''-1''] =
       Inr [(''data'', Some (PStr ''credit.xls'')),
            (''test_train_ratio'', Some (PFloat 0.25)),
            (''n_estimators'', Some (PInt 100)),
            (''learning_rate'', Some (PFloat 0.1)),
            (''registered_model_name'', Some (PStr ''-1''))]"
    by blast
  from t g2 h4 have g3:
    "supplies_only [''--data'', ''credit.xls'', ''--registered_model_name'', ''-1'']"
    by blast
  from t g2 have g4: "Unknown_optional \<notin> set (classify main_parser
         [''--data'', ''credit.xls'', ''--registered_model_name'', ''-1''])"
    by blast
  show ?thesis by (intro conjI h1 g1 c4 h2 c3 h3 g2 h4 g3 g4)
qed

text \<open>
  C6, as the claim has it, fails: the value \<open>-x\<close> given to \<open>--data\<close> is read as an option,
  \<open>--data\<close> is left without a value and the script exits with status 2.
\<close>

theorem main_argparse_option_like_value:
  "parse_args ex_float main_parser [''--data'', ''-x'', ''--registered_model_name'', ''m''] =
     Inl (exit_status 2)"
proof -
  have "parse_optional main_parser ''-x'' = Unknown_optional"
    by (simp add: option_simps parse_abbreviation_def get_option_tuples_def negative_number_def
        is_digit_def)
  moreover have "parse_optional main_parser ''m'' = Positional"
    by (simp add: parse_optional_def)
  ultimately show ?thesis
    by (simp add: parse_args_def parse_known_args_def)
qed

lemma job_argv_eq:
  "job_argv data_path =
     [''--data'', data_path, ''--test_train_ratio'', ''0.2'', ''--learning_rate'', ''0.25'',
      ''--registered_model_name'', ''credit_defaults_model'']"
  by (simp add: job_argv_def job_command_def job_inputs_def render_word_def
      registered_model_name_def)

lemma parse_job_argv:
  assumes "data_path = [] \<or> hd data_path \<noteq> CHR ''-''"
  shows "parse_args py_float main_parser (job_argv data_path) =
     (case py_float ''0.2'' of
        None \<Rightarrow> Inl (exit_status 2)
      | Some a \<Rightarrow>
          (case py_float ''0.25'' of
             None \<Rightarrow> Inl (exit_status 2)
           | Some b \<Rightarrow>
               Inr [(''data'', Some (PStr data_path)),
                    (''test_train_ratio'', Some (PFloat a)),
                    (''n_estimators'', Some (PInt 100)),
                    (''learning_rate'', Some (PFloat b)),
                    (''registered_model_name'', Some (PStr ''credit_defaults_model''))]))"
  using value_Positional [OF assms, of main_parser]
  unfolding job_argv_eq
  by (simp add: parse_args_def parse_known_args_def value_Positional [of "''0.2''"]
        value_Positional [of "''0.25''"] value_Positional [of "''credit_defaults_model''"])
     (simp add: main_parser_def defaults_def get_value_def store_def split: option.split)

text \<open>
  C10. The command line of the job names the options \<open>--data\<close>, \<open>--test_train_ratio\<close>,
  \<open>--learning_rate\<close> and \<open>--registered_model_name\<close> and not \<open>--n_estimators\<close>. Whatever
  path the data file gets (one word: not empty, without a space, not beginning with a
  dash), every run in which the script parses its command line has \<open>n_estimators\<close>
  equal to the parser's default 100; and the command line is parsed whenever \<open>float\<close>
  reads \<open>0.2\<close> and \<open>0.25\<close>.
\<close>

theorem job_n_estimators_default:
  assumes "data_path \<noteq> []" and "hd data_path \<noteq> CHR ''-''"
    and "CHR '' '' \<notin> set data_path"
  shows "filter (\<lambda>w. starts_with w ''--'') (split_words job_command []) =
       [''--data'', ''--test_train_ratio'', ''--learning_rate'', ''--registered_model_name'']
   \<and> ''--n_estimators'' \<notin> set (job_argv data_path)
   \<and> (\<forall>ns. parse_args py_float main_parser (job_argv data_path) = Inr ns \<longrightarrow>
         getattr ns ''n_estimators'' = Some (Some (PInt 100)))
   \<and> (\<forall>a b. py_float ''0.2'' = Some a \<and> py_float ''0.25'' = Some b \<longrightarrow>
         parse_args py_float main_parser (job_argv data_path) =
           Inr [(''data'', Some (PStr data_path)),
                (''test_train_ratio'', Some (PFloat a)),
                (''n_estimators'', Some (PInt 100)),
                (''learning_rate'', Some (PFloat b)),
                (''registered_model_name'', Some (PStr ''credit_defaults_model''))])"
proof -
  have v: "data_path = [] \<or> hd data_path \<noteq> CHR ''-''" using assms(2) by simp
  show ?thesis
  proof (intro conjI allI impI)
  show "filter (\<lambda>w. starts_with w ''--'') (split_words job_command []) =
       [''--data'', ''--test_train_ratio'', ''--learning_rate'', ''--registered_model_name'']"
    by (simp add: job_command_def)
  show "''--n_estimators'' \<notin> set (job_argv data_path)"
    using v unfolding job_argv_eq by auto
next
  fix ns
  assume "parse_args py_float main_parser (job_argv data_path) = Inr ns"
  then show "getattr ns ''n_estimators'' = Some (Some (PInt 100))"
    unfolding parse_job_argv [OF v]
    by (auto simp: getattr_def split: option.splits)
next
  fix a b
  assume "py_float ''0.2'' = Some a \<and> py_float ''0.25'' = Some b"
  then show "parse_args py_float main_parser (job_argv data_path) =
           Inr [(''data'', Some (PStr data_path)),
                (''test_train_ratio'', Some (PFloat a)),
                (''n_estimators'', Some (PInt 100)),
                (''learning_rate'', Some (PFloat b)),
                (''registered_model_name'', Some (PStr ''credit_defaults_model''))]"
    unfolding parse_job_argv [OF v] by simp
qed
qed

theorem job_n_estimators_default_witness:
  "parse_args ex_float main_parser (job_argv ''/mnt/inputs/credit.xls'') =
     Inr [(''data'', Some (PStr ''/mnt/inputs/credit.xls'')),
          (''test_train_ratio'', Some (PFloat 0.2)),
          (''n_estimators'', Some (PInt 100)),
          (''learning_rate'', Some (PFloat 0.25)),
          (''registered_model_name'', Some (PStr ''credit_defaults_model''))]
   \<and> getattr [(''data'', Some (PStr ''/mnt/inputs/credit.xls'')),
          (''test_train_ratio'', Some (PFloat 0.2)),
          (''n_estimators'', Some (PInt 100)),
          (''learning_rate'', Some (PFloat 0.25)),
          (''registered_model_name'', Some (PStr ''credit_defaults_model''))] ''n_estimators''
       = Some (Some (PInt 100))"
proof -
  have h0: "''/mnt/inputs/credit.xls'' \<noteq> []" by simp
  have h1: "hd ''/mnt/inputs/credit.xls'' \<noteq> CHR ''-''" by simp
  have h2: "CHR '' '' \<notin> set ''/mnt/inputs/credit.xls''" by simp
  have f: "ex_float ''0.2'' = Some 0.2 \<and> ex_float ''0.25'' = Some 0.25" by (simp add: ex_float_def)
  note t = job_n_estimators_default [OF h0 h1 h2, of ex_float]
  from t f have p: "parse_args ex_float main_parser (job_argv ''/mnt/inputs/credit.xls'') =
     Inr [(''data'', Some (PStr ''/mnt/inputs/credit.xls'')),
          (''test_train_ratio'', Some (PFloat 0.2)),
          (''n_estimators'', Some (PInt 100)),
          (''learning_rate'', Some (PFloat 0.25)),
          (''registered_model_name'', Some (PStr ''credit_defaults_model''))]"
    by blast
  with t show ?thesis by blast
qed

section \<open>Properties of the number scanner\<close>

lemma scan_digits_append:
  assumes "snd (scan_digits s) = [] \<Longrightarrow> t = [] \<or> \<not> is_digit (hd t)"
  shows "scan_digits (s @ t) = (fst (scan_digits s), snd (scan_digits s) @ t)"
  using assms
proof (induction s)
  case Nil
  then show ?case by (cases t) (auto simp: scan_digits_def)
next
  case (Cons c s)
  then show ?case by (auto simp: scan_digits_def)
qed

lemma stops_digit: "stops t \<Longrightarrow> t = [] \<or> \<not> is_digit (hd t)"
  by (cases t) (auto simp: stops_def)

lemma scan_exp_sign_append:
  "s \<noteq> [] \<Longrightarrow> scan_exp_sign (s @ t) = (fst (scan_exp_sign s), snd (scan_exp_sign s) @ t)"
  by (cases s) (auto simp: scan_exp_sign_def)

lemma scan_exp_append:
  assumes "scan_exp s = (ex, r)" and "stops (r @ t)"
  shows "scan_exp (s @ t) = (ex, r @ t)"
proof (cases s)
  case Nil
  with assms have "r = []" "ex = []" by (auto simp: scan_exp_def)
  with assms Nil show ?thesis by (cases t) (auto simp: scan_exp_def stops_def)
next
  case (Cons c x)
  show ?thesis
  proof (cases "(c = CHR ''e'' \<or> c = CHR ''E'') \<and> fst (scan_digits (snd (scan_exp_sign x))) \<noteq> []")
    case True
    then have x: "x \<noteq> []" by (auto simp: scan_exp_sign_def scan_digits_def)
    from True assms Cons have r: "r = snd (scan_digits (snd (scan_exp_sign x)))"
      and ex: "ex = c # fst (scan_exp_sign x) @ fst (scan_digits (snd (scan_exp_sign x)))"
      by (auto simp: scan_exp_def)
    have "scan_digits (snd (scan_exp_sign x) @ t)
        = (fst (scan_digits (snd (scan_exp_sign x))), snd (scan_digits (snd (scan_exp_sign x))) @ t)"
      using assms(2) r by (intro scan_digits_append) (auto dest: stops_digit)
    with True Cons r ex x show ?thesis
      by (simp add: scan_exp_def scan_exp_sign_append)
  next
    case False
    with assms Cons have r: "r = s" "ex = []" by (auto simp: scan_exp_def)
    with assms(2) Cons have c: "c \<noteq> CHR ''e''" "c \<noteq> CHR ''E''" by (auto simp: stops_def)
    with Cons r show ?thesis by (simp add: scan_exp_def)
  qed
qed

text \<open>What is left after a fraction is an exponent still to read, or the end.\<close>

lemma scan_frac_append:
  assumes "scan_frac s = (f, r)"
    and "(r \<noteq> [] \<and> (hd r = CHR ''e'' \<or> hd r = CHR ''E'')) \<or> stops (r @ t)"
  shows "scan_frac (s @ t) = (f, r @ t)"
proof (cases s)
  case Nil
  with assms have "r = []" "f = []" by (auto simp: scan_frac_def)
  with assms Nil show ?thesis by (cases t) (auto simp: scan_frac_def stops_def)
next
  case (Cons c x)
  show ?thesis
  proof (cases "c = CHR ''.'' \<and> fst (scan_digits x) \<noteq> []")
    case True
    from True assms Cons have r: "r = snd (scan_digits x)" and f: "f = c # fst (scan_digits x)"
      by (auto simp: scan_frac_def)
    have "scan_digits (x @ t) = (fst (scan_digits x), snd (scan_digits x) @ t)"
      using assms(2) r by (intro scan_digits_append) (auto dest: stops_digit)
    with True Cons r f show ?thesis by (simp add: scan_frac_def)
  next
    case False
    with assms Cons have r: "r = s" "f = []" by (auto simp: scan_frac_def)
    with assms(2) Cons have "c \<noteq> CHR ''.''" by (auto simp: stops_def)
    with Cons r show ?thesis by (simp add: scan_frac_def)
  qed
qed

lemma scan_int_part_append:
  assumes "scan_int_part s = Some (ip, r)" and "r = [] \<Longrightarrow> t = [] \<or> \<not> is_digit (hd t)"
  shows "scan_int_part (s @ t) = Some (ip, r @ t)"
proof (cases s)
  case Nil
  with assms show ?thesis by (simp add: scan_int_part_def)
next
  case (Cons c x)
  show ?thesis
  proof (cases "c = CHR ''0''")
    case True
    with assms Cons show ?thesis by (auto simp: scan_int_part_def)
  next
    case False
    with assms Cons have d: "is_digit c" and r: "r = snd (scan_digits x)"
      and ip: "ip = c # fst (scan_digits x)"
      by (auto simp: scan_int_part_def split: if_splits)
    have "scan_digits (x @ t) = (fst (scan_digits x), snd (scan_digits x) @ t)"
      using assms(2) r by (intro scan_digits_append) auto
    with False d Cons r ip show ?thesis by (simp add: scan_int_part_def)
  qed
qed

lemma scan_exp_unmatched:
  "scan_exp s = (ex, r) \<Longrightarrow> \<not> (s \<noteq> [] \<and> (hd s = CHR ''e'' \<or> hd s = CHR ''E'')) \<Longrightarrow> r = s"
  by (cases s) (auto simp: scan_exp_def)

lemma scan_number_append:
  assumes "scan_number s = Some (v, r)" and "stops (r @ t)"
  shows "scan_number (s @ t) = Some (v, r @ t)"
proof -
  from assms(1) obtain ip r1 f r2 ex where
    i: "scan_int_part (snd (scan_sign s)) = Some (ip, r1)"
    and f: "scan_frac r1 = (f, r2)" and e: "scan_exp r2 = (ex, r)"
    and v: "v = (if f = [] \<and> ex = []
              then JInt (if fst (scan_sign s) = [] then int (nat_of_digits ip)
                         else - int (nat_of_digits ip))
              else JFloat (fst (scan_sign s) @ ip @ f @ ex))"
    by (auto simp: scan_number_def Let_def split: option.splits prod.splits if_splits)
  from i have s: "s \<noteq> []" by (auto simp: scan_sign_def scan_int_part_def)
  then have sg: "scan_sign (s @ t) = (fst (scan_sign s), snd (scan_sign s) @ t)"
    by (cases s) (auto simp: scan_sign_def)
  have e': "scan_exp (r2 @ t) = (ex, r @ t)" using e assms(2) by (rule scan_exp_append)
  have c2: "(r2 \<noteq> [] \<and> (hd r2 = CHR ''e'' \<or> hd r2 = CHR ''E'')) \<or> stops (r2 @ t)"
    using scan_exp_unmatched [OF e] assms(2) by blast
  have f': "scan_frac (r1 @ t) = (f, r2 @ t)" using f c2 by (rule scan_frac_append)
  have "r1 = [] \<Longrightarrow> t = [] \<or> \<not> is_digit (hd t)"
  proof -
    assume r1: "r1 = []"
    with f have "r2 = []" by (simp add: scan_frac_def)
    with e have "r = []" by (simp add: scan_exp_def)
    with assms(2) show ?thesis by (auto dest: stops_digit)
  qed
  with i have i': "scan_int_part (snd (scan_sign s) @ t) = Some (ip, r1 @ t)"
    by (rule scan_int_part_append)
  show ?thesis
    by (simp add: scan_number_def sg i' f' e' v)
qed

lemma scan_number_Cons:
  "scan_number s = Some vr \<Longrightarrow> \<exists>d ds. s = d # ds \<and> (is_digit d \<or> d = CHR ''-'')"
  by (cases s)
     (auto simp: scan_number_def scan_sign_def scan_int_part_def is_digit_def
           split: option.splits if_splits)

section \<open>Decimal digits\<close>

lemma digit_cases: "d < 10 \<Longrightarrow> d \<in> {0, 1, 2, 3, 4, 5, 6, 7, 8, 9 :: nat}"
  by auto

lemma digit_char_props:
  assumes "d < 10"
  shows "is_digit (digit_char d)" and "digit_val (digit_char d) = d"
    and "digit_char d = CHR ''0'' \<longleftrightarrow> d = 0"
  using digit_cases [OF assms]
  by (auto simp: digit_char_def is_digit_def digit_val_def)

lemma str_nat_unfold:
  "str_nat n = (if n < 10 then [digit_char n] else str_nat (n div 10) @ [digit_char (n mod 10)])"
  by (rule str_nat.simps)

lemma str_nat_digits: "list_all is_digit (str_nat n)"
proof (induction n rule: str_nat.induct)
  case (1 n)
  show ?case
  proof (cases "n < 10")
    case True
    then show ?thesis by (subst str_nat_unfold) (simp add: digit_char_props)
  next
    case False
    with 1 show ?thesis by (subst str_nat_unfold) (simp add: digit_char_props)
  qed
qed

lemma str_nat_nonempty: "str_nat n \<noteq> []"
  by (subst str_nat_unfold) simp

lemma str_nat_hd: "hd (str_nat n) = CHR ''0'' \<Longrightarrow> n = 0"
proof (induction n rule: str_nat.induct)
  case (1 n)
  show ?case
  proof (cases "n < 10")
    case True
    with "1.prems" show ?thesis
      by (subst (asm) str_nat_unfold) (simp add: digit_char_props)
  next
    case False
    with "1.prems" have "hd (str_nat (n div 10)) = CHR ''0''"
      by (subst (asm) str_nat_unfold) (simp add: str_nat_nonempty)
    with "1.IH" False have "n div 10 = 0" by simp
    with False show ?thesis by simp
  qed
qed

lemma nat_of_digits_snoc: "nat_of_digits (ds @ [c]) = 10 * nat_of_digits ds + digit_val c"
  by (simp add: nat_of_digits_def)

lemma nat_of_digits_str_nat: "nat_of_digits (str_nat n) = n"
proof (induction n rule: str_nat.induct)
  case (1 n)
  show ?case
  proof (cases "n < 10")
    case True
    then show ?thesis
      by (subst str_nat_unfold) (simp add: nat_of_digits_def digit_char_props)
  next
    case False
    with 1 show ?thesis
      by (subst str_nat_unfold) (simp add: nat_of_digits_snoc digit_char_props)
  qed
qed

lemma scan_digits_all: "list_all is_digit ds \<Longrightarrow> scan_digits ds = (ds, [])"
  by (simp add: scan_digits_def list_all_iff)

lemma scan_number_str_nat: "scan_number (str_nat n) = Some (JInt (int n), [])"
proof -
  obtain d ds where s: "str_nat n = d # ds" using str_nat_nonempty [of n] by (cases "str_nat n") auto
  have dig: "is_digit d" "list_all is_digit ds" using str_nat_digits [of n] s by simp_all
  then have nm: "d \<noteq> CHR ''-''" by (auto simp: is_digit_def)
  have sg: "scan_sign (str_nat n) = ([], str_nat n)" using s nm by (simp add: scan_sign_def)
  have ip: "scan_int_part (str_nat n) = Some (str_nat n, [])"
  proof (cases "d = CHR ''0''")
    case True
    then have "n = 0" using str_nat_hd [of n] s by simp
    then show ?thesis by (simp add: scan_int_part_def digit_char_def str_nat.simps)
  next
    case False
    then show ?thesis using s dig by (simp add: scan_int_part_def scan_digits_all)
  qed
  show ?thesis
    by (simp add: scan_number_def sg ip scan_frac_def scan_exp_def nat_of_digits_str_nat)
qed

section \<open>Properties of the JSON reader\<close>

lemma skip_ws_append: "skip_ws r = c # r' \<Longrightarrow> skip_ws (r @ t) = c # r' @ t"
  unfolding skip_ws_def by (induction r) (auto split: if_splits)

lemma skip_ws_all: "skip_ws r = [] \<Longrightarrow> skip_ws (r @ t) = skip_ws t"
  unfolding skip_ws_def by (induction r) (auto split: if_splits)

lemma skip_ws_id: "s \<noteq> [] \<Longrightarrow> \<not> is_ws (hd s) \<Longrightarrow> skip_ws s = s"
  unfolding skip_ws_def by (cases s) auto

lemma scan_escape_append:
  "scan_escape s = Some (x, r) \<Longrightarrow> scan_escape (s @ t) = Some (x, r @ t)"
  by (auto simp: scan_escape_def split: list.splits if_splits option.splits)

lemma scan_string_append:
  "scan_string s = Some (str, r) \<Longrightarrow> scan_string (s @ t) = Some (str, r @ t)"
proof (induction s arbitrary: str r rule: scan_string.induct)
  case 1
  then show ?case by simp
next
  case (2 c cs)
  show ?case
  proof (cases "c = CHR 0x22")
    case True
    with "2.prems" show ?thesis by simp
  next
    case q: False
    show ?thesis
    proof (cases "c = CHR 0x5C")
      case True
      with q "2.prems" obtain x cs' str' where
        e: "scan_escape cs = Some (x, cs')" and s: "scan_string cs' = Some (str', r)"
        and str: "str = x # str'"
        by (auto split: option.splits)
      from "2.IH"(1) [OF q True e refl s] have "scan_string (cs' @ t) = Some (str', r @ t)" .
      with q True scan_escape_append [OF e, of t] str show ?thesis by simp
    next
      case False
      with q "2.prems" obtain str' where
        c: "\<not> (of_char c :: nat) < 32" and s: "scan_string cs = Some (str', r)"
        and str: "str = c # str'"
        by (auto split: option.splits if_splits)
      from "2.IH"(2) [OF q False c s] have "scan_string (cs @ t) = Some (str', r @ t)" .
      with q False c str show ?thesis by simp
    qed
  qed
qed

lemma starts_with_append: "starts_with s p \<Longrightarrow> starts_with (s @ t) p"
  by (induction s p rule: starts_with.induct) auto

lemma starts_with_length: "starts_with s p \<Longrightarrow> length p \<le> length s"
  by (induction s p rule: starts_with.induct) auto

lemma scan_number_None_iff:
  "scan_number s = None \<longleftrightarrow> scan_int_part (snd (scan_sign s)) = None"
  by (simp add: scan_number_def Let_def split: option.splits prod.splits)

lemma scan_number_None_append:
  assumes "scan_number (c # cs) = None" and "c \<noteq> CHR ''-'' \<or> cs \<noteq> []"
  shows "scan_number (c # cs @ t) = None"
proof (cases "c = CHR ''-''")
  case True
  with assms(2) obtain d ds where cs: "cs = d # ds" by (cases cs) auto
  from assms(1) True cs have "scan_int_part (d # ds) = None"
    by (simp add: scan_number_None_iff scan_sign_def)
  then have "scan_int_part (d # ds @ t) = None"
    by (simp add: scan_int_part_def split: if_splits)
  with True cs show ?thesis by (simp add: scan_number_None_iff scan_sign_def)
next
  case False
  with assms(1) have "scan_int_part (c # cs) = None"
    by (simp add: scan_number_None_iff scan_sign_def)
  then have "scan_int_part (c # cs @ t) = None"
    by (simp add: scan_int_part_def split: if_splits)
  with False show ?thesis by (simp add: scan_number_None_iff scan_sign_def)
qed

lemma scan_number_is_num: "scan_number s = Some (v, r) \<Longrightarrow> is_num v"
  by (auto simp: is_num_def scan_number_def Let_def split: option.splits prod.splits if_splits)

lemma scan_number_Nil: "scan_number [] = None"
  by (simp add: scan_number_None_iff scan_sign_def scan_int_part_def)

lemma parse_atom_Cons: "parse_atom s = Some vr \<Longrightarrow> s \<noteq> []"
  by (auto simp: parse_atom_def scan_number_Nil)

lemma parse_atom_append:
  assumes "parse_atom s = Some (v, r)" and "is_num v \<Longrightarrow> stops (r @ t)"
  shows "parse_atom (s @ t) = Some (v, r @ t)"
proof -
  from parse_atom_Cons [OF assms(1)] obtain c cs where s: "s = c # cs"
    by (cases s) auto
  consider (null) "starts_with s ''null''"
    | (true) "starts_with s ''true''"
    | (false) "starts_with s ''false''"
    | (number) "\<not> starts_with s ''null''" "\<not> starts_with s ''true''" "\<not> starts_with s ''false''"
        "scan_number s = Some (v, r)"
    | (nan) "scan_number s = None" "starts_with s ''NaN''"
    | (inf) "scan_number s = None" "starts_with s ''Infinity''"
    | (neginf) "scan_number s = None" "starts_with s ''-Infinity''"
    using assms(1) by (auto simp: parse_atom_def split: if_splits option.splits)
  then show ?thesis
  proof cases
    case null
    then have "starts_with (s @ t) ''null''" by (rule starts_with_append)
    moreover have "4 \<le> length s" using starts_with_length [OF null] by simp
    ultimately show ?thesis using assms(1) null by (simp add: parse_atom_def)
  next
    case true
    then have n: "\<not> starts_with s ''null''" "\<not> starts_with (s @ t) ''null''"
      by (auto simp: s)
    have "starts_with (s @ t) ''true''" using true by (rule starts_with_append)
    moreover have "4 \<le> length s" using starts_with_length [OF true] by simp
    ultimately show ?thesis using assms(1) true n by (simp add: parse_atom_def)
  next
    case false
    then have n: "\<not> starts_with s ''null''" "\<not> starts_with (s @ t) ''null''"
      "\<not> starts_with s ''true''" "\<not> starts_with (s @ t) ''true''"
      by (auto simp: s)
    have "starts_with (s @ t) ''false''" using false by (rule starts_with_append)
    moreover have "5 \<le> length s" using starts_with_length [OF false] by simp
    ultimately show ?thesis using assms(1) false n by (simp add: parse_atom_def)
  next
    case number
    from scan_number_Cons [OF number(4)] s have d: "is_digit c \<or> c = CHR ''-''" by simp
    then have n: "\<not> starts_with (s @ t) ''null''" "\<not> starts_with (s @ t) ''true''"
      "\<not> starts_with (s @ t) ''false''"
      by (auto simp: s is_digit_def)
    have "is_num v" using number(4) by (rule scan_number_is_num)
    then have "stops (r @ t)" by (rule assms(2))
    with number(4) have "scan_number (s @ t) = Some (v, r @ t)" by (rule scan_number_append)
    with n show ?thesis by (simp add: parse_atom_def)
  next
    case nan
    then have c: "c = CHR ''N''" by (simp add: s)
    then have n: "\<not> starts_with (s @ t) ''null''" "\<not> starts_with (s @ t) ''true''"
      "\<not> starts_with (s @ t) ''false''" "\<not> starts_with s ''null''" "\<not> starts_with s ''true''"
      "\<not> starts_with s ''false''"
      by (auto simp: s)
    have "scan_number (s @ t) = None"
      using scan_number_None_append [of c cs t] nan(1) c by (simp add: s)
    moreover have "starts_with (s @ t) ''NaN''" using nan(2) by (rule starts_with_append)
    moreover have "3 \<le> length s" using starts_with_length [OF nan(2)] by simp
    ultimately show ?thesis using assms(1) nan n by (simp add: parse_atom_def)
  next
    case inf
    then have c: "c = CHR ''I''" by (simp add: s)
    then have n: "\<not> starts_with (s @ t) ''null''" "\<not> starts_with (s @ t) ''true''"
      "\<not> starts_with (s @ t) ''false''" "\<not> starts_with (s @ t) ''NaN''"
      "\<not> starts_with s ''null''" "\<not> starts_with s ''true''"
      "\<not> starts_with s ''false''" "\<not> starts_with s ''NaN''"
      by (auto simp: s)
    have "scan_number (s @ t) = None"
      using scan_number_None_append [of c cs t] inf(1) c by (simp add: s)
    moreover have "starts_with (s @ t) ''Infinity''" using inf(2) by (rule starts_with_append)
    moreover have "8 \<le> length s" using starts_with_length [OF inf(2)] by simp
    ultimately show ?thesis using assms(1) inf n by (simp add: parse_atom_def)
  next
    case neginf
    then have c: "c = CHR ''-''" "cs \<noteq> []" by (auto simp: s)
    then have n: "\<not> starts_with (s @ t) ''null''" "\<not> starts_with (s @ t) ''true''"
      "\<not> starts_with (s @ t) ''false''" "\<not> starts_with (s @ t) ''NaN''"
      "\<not> starts_with (s @ t) ''Infinity''"
      "\<not> starts_with s ''null''" "\<not> starts_with s ''true''"
      "\<not> starts_with s ''false''" "\<not> starts_with s ''NaN''" "\<not> starts_with s ''Infinity''"
      by (auto simp: s)
    have "scan_number (s @ t) = None"
      using scan_number_None_append [of c cs t] neginf(1) c by (simp add: s)
    moreover have "starts_with (s @ t) ''-Infinity''" using neginf(2) by (rule starts_with_append)
    moreover have "9 \<le> length s" using starts_with_length [OF neginf(2)] by simp
    ultimately show ?thesis using assms(1) neginf n by (simp add: parse_atom_def)
  qed
qed

lemma parse_steps:
  "parse_value (Suc n) s = value_step (parse_elements n) (parse_members n) s"
  "parse_elements (Suc n) s = elements_step (parse_value n) (parse_elements n) s"
  "parse_members (Suc n) s = members_step (parse_value n) (parse_members n) s"
  by (simp_all add: value_step_def elements_step_def members_step_def)

lemmas parse_simps_del = parse_value.simps(2) parse_elements.simps(2) parse_members.simps(2)

lemma belowD: "below f g \<Longrightarrow> f x = Some y \<Longrightarrow> g x = Some y"
  by (simp add: below_def)

lemma value_step_mono:
  assumes "below E E'" and "below M M'"
  shows "below (value_step E M) (value_step E' M')"
  unfolding below_def
proof (intro allI impI)
  fix s a
  assume h: "value_step E M s = Some a"
  then obtain c r where s: "s = c # r" by (cases s) (auto simp: value_step_def)
  show "value_step E' M' s = Some a"
  proof (cases "c = CHR ''[''")
    case True
    from h s True obtain c' r' where w: "skip_ws r = c' # r'"
      by (cases "skip_ws r") (auto simp: value_step_def)
    show ?thesis
    proof (cases "c' = CHR '']''")
      case True
      with h s \<open>c = CHR ''[''\<close> w show ?thesis by (simp add: value_step_def)
    next
      case False
      with h s \<open>c = CHR ''[''\<close> w obtain vs r'' where
        e: "E (c' # r') = Some (vs, r'')" and a: "a = (JArray vs, r'')"
        by (auto simp: value_step_def split: option.splits)
      from belowD [OF assms(1) e] False s \<open>c = CHR ''[''\<close> w a show ?thesis
        by (simp add: value_step_def)
    qed
  next
    case nb: False
    show ?thesis
    proof (cases "c = CHR ''{''")
      case True
      from h s True obtain c' r' where w: "skip_ws r = c' # r'"
        by (cases "skip_ws r") (auto simp: value_step_def)
      show ?thesis
      proof (cases "c' = CHR ''}''")
        case True
        with h s \<open>c = CHR ''{''\<close> w show ?thesis by (simp add: value_step_def)
      next
        case False
        with h s \<open>c = CHR ''{''\<close> w obtain kvs r'' where
          e: "M (c' # r') = Some (kvs, r'')" and a: "a = (JObject kvs, r'')"
          by (auto simp: value_step_def split: option.splits)
        from belowD [OF assms(2) e] False s \<open>c = CHR ''{''\<close> w a show ?thesis
          by (simp add: value_step_def)
      qed
    next
      case False
      with nb h s show ?thesis by (auto simp: value_step_def split: if_splits)
    qed
  qed
qed

lemma elements_stepE:
  assumes "elements_step V E s = Some a"
  obtains v r r' where "V s = Some (v, r)" "skip_ws r = CHR '']'' # r'" "a = ([v], r')"
  | v r r' vs r'' where "V s = Some (v, r)" "skip_ws r = CHR '','' # r'"
      "E (skip_ws r') = Some (vs, r'')" "a = (v # vs, r'')"
  using assms
  by (auto simp: elements_step_def split: option.splits list.splits if_splits)

lemma elements_stepI1:
  "V s = Some (v, r) \<Longrightarrow> skip_ws r = CHR '']'' # r' \<Longrightarrow> elements_step V E s = Some ([v], r')"
  by (simp add: elements_step_def)

lemma elements_stepI2:
  "V s = Some (v, r) \<Longrightarrow> skip_ws r = CHR '','' # r' \<Longrightarrow> E (skip_ws r') = Some (vs, r'')
   \<Longrightarrow> elements_step V E s = Some (v # vs, r'')"
  by (simp add: elements_step_def)

lemma elements_step_mono:
  assumes "below V V'" and "below E E'"
  shows "below (elements_step V E) (elements_step V' E')"
  unfolding below_def
proof (intro allI impI)
  fix s a
  assume "elements_step V E s = Some a"
  then show "elements_step V' E' s = Some a"
  proof (cases rule: elements_stepE)
    case (1 v r r')
    from belowD [OF assms(1) 1(1)] 1(2) show ?thesis
      unfolding 1(3) by (rule elements_stepI1)
  next
    case (2 v r r' vs r'')
    from belowD [OF assms(1) 2(1)] 2(2) belowD [OF assms(2) 2(3)] show ?thesis
      unfolding 2(4) by (rule elements_stepI2)
  qed
qed

lemma members_stepE:
  assumes "members_step V M s = Some a"
  obtains r k r1 r2 v r3 r4 where "s = CHR 0x22 # r" "scan_string r = Some (k, r1)"
      "skip_ws r1 = CHR '':'' # r2" "V (skip_ws r2) = Some (v, r3)"
      "skip_ws r3 = CHR ''}'' # r4" "a = ([(k, v)], r4)"
  | r k r1 r2 v r3 r4 kvs r5 where "s = CHR 0x22 # r" "scan_string r = Some (k, r1)"
      "skip_ws r1 = CHR '':'' # r2" "V (skip_ws r2) = Some (v, r3)"
      "skip_ws r3 = CHR '','' # r4" "M (skip_ws r4) = Some (kvs, r5)" "a = ((k, v) # kvs, r5)"
  using assms
  by (auto simp: members_step_def split: option.splits list.splits if_splits)

lemma members_stepI1:
  "s = CHR 0x22 # r \<Longrightarrow> scan_string r = Some (k, r1) \<Longrightarrow> skip_ws r1 = CHR '':'' # r2
   \<Longrightarrow> V (skip_ws r2) = Some (v, r3) \<Longrightarrow> skip_ws r3 = CHR ''}'' # r4
   \<Longrightarrow> members_step V M s = Some ([(k, v)], r4)"
  by (simp add: members_step_def)

lemma members_stepI2:
  "s = CHR 0x22 # r \<Longrightarrow> scan_string r = Some (k, r1) \<Longrightarrow> skip_ws r1 = CHR '':'' # r2
   \<Longrightarrow> V (skip_ws r2) = Some (v, r3) \<Longrightarrow> skip_ws r3 = CHR '','' # r4
   \<Longrightarrow> M (skip_ws r4) = Some (kvs, r5)
   \<Longrightarrow> members_step V M s = Some ((k, v) # kvs, r5)"
  by (simp add: members_step_def)

lemma members_step_mono:
  assumes "below V V'" and "below M M'"
  shows "below (members_step V M) (members_step V' M')"
  unfolding below_def
proof (intro allI impI)
  fix s a
  assume "members_step V M s = Some a"
  then show "members_step V' M' s = Some a"
  proof (cases rule: members_stepE)
    case (1 r k r1 r2 v r3 r4)
    from 1(1,2,3) belowD [OF assms(1) 1(4)] 1(5) show ?thesis
      unfolding 1(6) by (rule members_stepI1)
  next
    case (2 r k r1 r2 v r3 r4 kvs r5)
    from 2(1,2,3) belowD [OF assms(1) 2(4)] 2(5) belowD [OF assms(2) 2(6)] show ?thesis
      unfolding 2(7) by (rule members_stepI2)
  qed
qed

lemma parse_mono_Suc:
  "below (parse_value n) (parse_value (Suc n))
   \<and> below (parse_elements n) (parse_elements (Suc n))
   \<and> below (parse_members n) (parse_members (Suc n))"
proof (induction n)
  case 0
  then show ?case by (simp add: below_def)
next
  case (Suc n)
  have "below (parse_value (Suc n)) (parse_value (Suc (Suc n)))"
    using value_step_mono [of "parse_elements n" "parse_elements (Suc n)"
        "parse_members n" "parse_members (Suc n)"] Suc
    unfolding below_def parse_steps by blast
  moreover have "below (parse_elements (Suc n)) (parse_elements (Suc (Suc n)))"
    using elements_step_mono [of "parse_value n" "parse_value (Suc n)"
        "parse_elements n" "parse_elements (Suc n)"] Suc
    unfolding below_def parse_steps by blast
  moreover have "below (parse_members (Suc n)) (parse_members (Suc (Suc n)))"
    using members_step_mono [of "parse_value n" "parse_value (Suc n)"
        "parse_members n" "parse_members (Suc n)"] Suc
    unfolding below_def parse_steps by blast
  ultimately show ?case by blast
qed

lemma parse_value_mono: "parse_value n s = Some a \<Longrightarrow> n \<le> m \<Longrightarrow> parse_value m s = Some a"
proof (induction m)
  case 0
  then show ?case by simp
next
  case (Suc m)
  show ?case
  proof (cases "n = Suc m")
    case True
    with Suc.prems show ?thesis by simp
  next
    case False
    with Suc have a: "parse_value m s = Some a" by simp
    from parse_mono_Suc [of m] have "below (parse_value m) (parse_value (Suc m))" by blast
    from belowD [OF this a] show ?thesis .
  qed
qed

lemma local_valueD:
  "local_value V \<Longrightarrow> V s = Some (v, r) \<Longrightarrow> (is_num v \<Longrightarrow> stops (r @ t))
   \<Longrightarrow> V (s @ t) = Some (v, r @ t)"
  by (simp add: local_value_def)

lemma local_listD: "local_list F \<Longrightarrow> F s = Some (x, r) \<Longrightarrow> F (s @ t) = Some (x, r @ t)"
  by (simp add: local_list_def)

lemma local_list_Cons: "local_list F \<Longrightarrow> F s = Some xr \<Longrightarrow> s \<noteq> []"
  by (auto simp: local_list_def)

lemma local_value_Cons: "local_value V \<Longrightarrow> V s = Some xr \<Longrightarrow> s \<noteq> []"
  by (auto simp: local_value_def)

lemma skip_ws_append': "skip_ws r \<noteq> [] \<Longrightarrow> skip_ws (r @ t) = skip_ws r @ t"
  by (cases "skip_ws r") (auto dest: skip_ws_append)

lemma skip_ws_stops:
  assumes "skip_ws r = c # r'" and "stops [c]"
  shows "stops (r @ t)"
proof -
  from assms(1) obtain d ds where r: "r = d # ds" by (cases r) (auto simp: skip_ws_def)
  have "is_ws d \<or> d = c" using assms(1) r by (auto simp: skip_ws_def split: if_splits)
  then have "stops [d]" using assms(2) by (auto simp: stops_def is_ws_def is_digit_def)
  then show ?thesis by (simp add: r stops_def)
qed

lemma value_step_local:
  assumes "local_list E" and "local_list M"
  shows "local_value (value_step E M)"
  unfolding local_value_def
proof (intro conjI allI impI)
  show "value_step E M [] = None" by (simp add: value_step_def)
next
  fix s v r t
  assume h: "value_step E M s = Some (v, r)" and n: "is_num v \<longrightarrow> stops (r @ t)"
  then obtain c x where s: "s = c # x" by (cases s) (auto simp: value_step_def)
  show "value_step E M (s @ t) = Some (v, r @ t)"
  proof (cases "c = CHR 0x22")
    case True
    with h s obtain str where "scan_string x = Some (str, r)" and "v = JString str"
      by (auto simp: value_step_def split: option.splits)
    with scan_string_append [of x str r t] True s show ?thesis
      by (simp add: value_step_def)
  next
    case nq: False
    show ?thesis
    proof (cases "c = CHR ''[''")
      case True
      from h s True obtain c' r' where w: "skip_ws x = c' # r'"
        by (cases "skip_ws x") (auto simp: value_step_def)
      then have w': "skip_ws (x @ t) = c' # r' @ t" by (rule skip_ws_append)
      show ?thesis
      proof (cases "c' = CHR '']''")
        case True
        with h s \<open>c = CHR ''[''\<close> w w' show ?thesis by (simp add: value_step_def)
      next
        case False
        with h s \<open>c = CHR ''[''\<close> w obtain vs where
          e: "E (c' # r') = Some (vs, r)" and v: "v = JArray vs"
          by (auto simp: value_step_def split: option.splits)
        from local_listD [OF assms(1) e, of t] False s \<open>c = CHR ''[''\<close> w' v show ?thesis
          by (simp add: value_step_def)
      qed
    next
      case nb: False
      show ?thesis
      proof (cases "c = CHR ''{''")
        case True
        from h s True obtain c' r' where w: "skip_ws x = c' # r'"
          by (cases "skip_ws x") (auto simp: value_step_def)
        then have w': "skip_ws (x @ t) = c' # r' @ t" by (rule skip_ws_append)
        show ?thesis
        proof (cases "c' = CHR ''}''")
          case True
          with h s \<open>c = CHR ''{''\<close> w w' show ?thesis by (simp add: value_step_def)
        next
          case False
          with h s \<open>c = CHR ''{''\<close> w obtain kvs where
            e: "M (c' # r') = Some (kvs, r)" and v: "v = JObject kvs"
            by (auto simp: value_step_def split: option.splits)
          from local_listD [OF assms(2) e, of t] False s \<open>c = CHR ''{''\<close> w' v show ?thesis
            by (simp add: value_step_def)
        qed
      next
        case False
        with nq nb h s have "parse_atom s = Some (v, r)"
          by (auto simp: value_step_def split: if_splits)
        then have "parse_atom (s @ t) = Some (v, r @ t)"
          using n by (intro parse_atom_append) auto
        with nq nb False s show ?thesis by (simp add: value_step_def)
      qed
    qed
  qed
qed

lemma elements_step_local:
  assumes "local_value V" and "local_list E"
  shows "local_list (elements_step V E)"
  unfolding local_list_def
proof (intro conjI allI impI)
  show "elements_step V E [] = None"
    using assms(1) by (simp add: elements_step_def local_value_def)
next
  fix s a r t
  assume "elements_step V E s = Some (a, r)"
  then show "elements_step V E (s @ t) = Some (a, r @ t)"
  proof (cases rule: elements_stepE)
    case (1 v r0 r')
    have "stops (r0 @ t)" using 1(2) by (rule skip_ws_stops) (simp add: stops_def is_digit_def)
    with local_valueD [OF assms(1) 1(1), of t] have "V (s @ t) = Some (v, r0 @ t)" by simp
    moreover have "skip_ws (r0 @ t) = CHR '']'' # r' @ t" using 1(2) by (rule skip_ws_append)
    ultimately have "elements_step V E (s @ t) = Some ([v], r' @ t)" by (rule elements_stepI1)
    with 1(3) show ?thesis by simp
  next
    case (2 v r0 r' vs r'')
    have "stops (r0 @ t)" using 2(2) by (rule skip_ws_stops) (simp add: stops_def is_digit_def)
    with local_valueD [OF assms(1) 2(1), of t] have "V (s @ t) = Some (v, r0 @ t)" by simp
    moreover have "skip_ws (r0 @ t) = CHR '','' # r' @ t" using 2(2) by (rule skip_ws_append)
    moreover have "E (skip_ws (r' @ t)) = Some (vs, r'' @ t)"
      using local_listD [OF assms(2) 2(3), of t] local_list_Cons [OF assms(2) 2(3)]
      by (simp add: skip_ws_append')
    ultimately have "elements_step V E (s @ t) = Some (v # vs, r'' @ t)" by (rule elements_stepI2)
    with 2(4) show ?thesis by simp
  qed
qed

lemma members_step_local:
  assumes "local_value V" and "local_list M"
  shows "local_list (members_step V M)"
  unfolding local_list_def
proof (intro conjI allI impI)
  show "members_step V M [] = None" by (simp add: members_step_def)
next
  fix s a r t
  assume "members_step V M s = Some (a, r)"
  then show "members_step V M (s @ t) = Some (a, r @ t)"
  proof (cases rule: members_stepE)
    case (1 x k r1 r2 v r3 r4)
    have s: "s @ t = CHR 0x22 # x @ t" using 1(1) by simp
    have k: "scan_string (x @ t) = Some (k, r1 @ t)" using 1(2) by (rule scan_string_append)
    have c: "skip_ws (r1 @ t) = CHR '':'' # r2 @ t" using 1(3) by (rule skip_ws_append)
    have "stops (r3 @ t)" using 1(5) by (rule skip_ws_stops) (simp add: stops_def is_digit_def)
    with local_valueD [OF assms(1) 1(4), of t] local_value_Cons [OF assms(1) 1(4)]
    have v: "V (skip_ws (r2 @ t)) = Some (v, r3 @ t)" by (simp add: skip_ws_append')
    have e: "skip_ws (r3 @ t) = CHR ''}'' # r4 @ t" using 1(5) by (rule skip_ws_append)
    from s k c v e have "members_step V M (s @ t) = Some ([(k, v)], r4 @ t)"
      by (rule members_stepI1)
    with 1(6) show ?thesis by simp
  next
    case (2 x k r1 r2 v r3 r4 kvs r5)
    have s: "s @ t = CHR 0x22 # x @ t" using 2(1) by simp
    have k: "scan_string (x @ t) = Some (k, r1 @ t)" using 2(2) by (rule scan_string_append)
    have c: "skip_ws (r1 @ t) = CHR '':'' # r2 @ t" using 2(3) by (rule skip_ws_append)
    have "stops (r3 @ t)" using 2(5) by (rule skip_ws_stops) (simp add: stops_def is_digit_def)
    with local_valueD [OF assms(1) 2(4), of t] local_value_Cons [OF assms(1) 2(4)]
    have v: "V (skip_ws (r2 @ t)) = Some (v, r3 @ t)" by (simp add: skip_ws_append')
    have e: "skip_ws (r3 @ t) = CHR '','' # r4 @ t" using 2(5) by (rule skip_ws_append)
    have m: "M (skip_ws (r4 @ t)) = Some (kvs, r5 @ t)"
      using local_listD [OF assms(2) 2(6), of t] local_list_Cons [OF assms(2) 2(6)]
      by (simp add: skip_ws_append')
    from s k c v e m have "members_step V M (s @ t) = Some ((k, v) # kvs, r5 @ t)"
      by (rule members_stepI2)
    with 2(7) show ?thesis by simp
  qed
qed

lemma parse_local:
  "local_value (parse_value n) \<and> local_list (parse_elements n) \<and> local_list (parse_members n)"
proof (induction n)
  case 0
  then show ?case by (simp add: local_value_def local_list_def)
next
  case (Suc n)
  have "parse_value (Suc n) = value_step (parse_elements n) (parse_members n)"
    and "parse_elements (Suc n) = elements_step (parse_value n) (parse_elements n)"
    and "parse_members (Suc n) = members_step (parse_value n) (parse_members n)"
    by (simp_all add: fun_eq_iff parse_steps del: parse_simps_del)
  with Suc show ?case
    by (simp add: value_step_local elements_step_local members_step_local del: parse_simps_del)
qed

lemma parse_value_append:
  "parse_value n s = Some (v, r) \<Longrightarrow> (is_num v \<Longrightarrow> stops (r @ t))
   \<Longrightarrow> parse_value n (s @ t) = Some (v, r @ t)"
  using parse_local [of n] by (blast intro: local_valueD)

text \<open>The reader on a text whose first character is known.\<close>

lemma skip_ws_Nil: "skip_ws [] = []"
  by (simp add: skip_ws_def)

lemma skip_ws_Cons: "skip_ws (c # s) = (if is_ws c then skip_ws s else c # s)"
  by (simp add: skip_ws_def)

lemma parse_value_quote:
  "parse_value (Suc n) (CHR 0x22 # r) =
     (case scan_string r of None \<Rightarrow> None | Some (str, r') \<Rightarrow> Some (JString str, r'))"
  by simp

lemma parse_value_brace:
  "parse_value (Suc n) (CHR ''{'' # r) =
     (case skip_ws r of
        [] \<Rightarrow> None
      | c' # r' \<Rightarrow>
          if c' = CHR ''}'' then Some (JObject [], r')
          else (case parse_members n (c' # r') of
                  None \<Rightarrow> None
                | Some (kvs, r'') \<Rightarrow> Some (JObject kvs, r'')))"
  by simp

lemma parse_members_quote:
  "parse_members (Suc n) (CHR 0x22 # r) =
     (case scan_string r of
        None \<Rightarrow> None
      | Some (k, r1) \<Rightarrow>
          (case skip_ws r1 of
             [] \<Rightarrow> None
           | c # r2 \<Rightarrow>
               if c \<noteq> CHR '':'' then None
               else (case parse_value n (skip_ws r2) of
                       None \<Rightarrow> None
                     | Some (v, r3) \<Rightarrow>
                         (case skip_ws r3 of
                            [] \<Rightarrow> None
                          | c' # r4 \<Rightarrow>
                              if c' = CHR '','' then
                                (case parse_members n (skip_ws r4) of
                                   None \<Rightarrow> None
                                 | Some (kvs, r5) \<Rightarrow> Some ((k, v) # kvs, r5))
                              else if c' = CHR ''}'' then Some ([(k, v)], r4)
                              else None))))"
  by simp

lemmas read_simps =
  parse_value_quote parse_value_brace parse_members_quote skip_ws_Cons skip_ws_Nil is_ws_def

lemma json_parse_D:
  assumes "json_parse s = Some v"
  obtains r where "parse_value (length s) (skip_ws s) = Some (v, r)" and "skip_ws r = []"
  using assms by (auto simp: json_parse_def split: option.splits if_splits)

lemma json_parse_I:
  assumes "parse_value n s = Some (v, r)" and "skip_ws r = []" and "n \<le> length s"
    and "s \<noteq> []" and "\<not> is_ws (hd s)"
  shows "json_parse s = Some v"
proof -
  have "parse_value (length s) s = Some (v, r)" using assms(1,3) by (rule parse_value_mono)
  then show ?thesis using assms(2,4,5) by (simp add: json_parse_def skip_ws_id)
qed

lemma embedded_value:
  assumes "json_parse text = Some v" and "length text \<le> n"
    and "post \<noteq> []" and "stops post" and "\<not> is_ws (hd post)"
  shows "\<exists>r. parse_value n (skip_ws (text @ post)) = Some (v, r @ post) \<and> skip_ws (r @ post) = post"
proof -
  from assms(1) obtain r where p: "parse_value (length text) (skip_ws text) = Some (v, r)"
    and r: "skip_ws r = []" by (rule json_parse_D)
  have ne: "skip_ws text \<noteq> []" using p parse_local [of "length text"]
    by (auto dest: local_value_Cons)
  have "stops (r @ post)"
  proof (cases r)
    case Nil
    with assms(4) show ?thesis by simp
  next
    case (Cons d ds)
    with r have "is_ws d" by (auto simp: skip_ws_def split: if_splits)
    then show ?thesis by (auto simp: Cons stops_def is_ws_def is_digit_def)
  qed
  with p have "parse_value (length text) (skip_ws text @ post) = Some (v, r @ post)"
    by (intro parse_value_append)
  then have "parse_value n (skip_ws text @ post) = Some (v, r @ post)"
    using assms(2) by (rule parse_value_mono)
  moreover have "skip_ws (text @ post) = skip_ws text @ post" using ne by (rule skip_ws_append')
  moreover have "skip_ws (r @ post) = post"
    using skip_ws_all [OF r, of post] assms(3,5) by (simp add: skip_ws_id)
  ultimately show ?thesis by auto
qed

lemma bankmarketing_request_parse:
  assumes "json_parse test_data_json = Some v"
  shows "json_parse (bankmarketing_request test_data_json) =
     Some (JObject [(''Inputs'', JObject [(''data'', v)]),
                    (''GlobalParameters'', JObject [(''method'', JString ''predict'')])])"
proof -
  let ?post = "''},           \"GlobalParameters\": { \"method\": \"predict\" }         }''"
  let ?n = "Suc (Suc (length test_data_json))"
  have "\<exists>r. parse_value ?n (skip_ws (test_data_json @ ?post)) = Some (v, r @ ?post)
      \<and> skip_ws (r @ ?post) = ?post"
    using assms by (rule embedded_value) (simp_all add: stops_def is_digit_def is_ws_def)
  then obtain r where a: "parse_value ?n (skip_ws (test_data_json @ ?post)) = Some (v, r @ ?post)"
    and b: "skip_ws (r @ ?post) = ?post" by blast
  have "parse_value (Suc (Suc (Suc (Suc ?n)))) (bankmarketing_request test_data_json) =
     Some (JObject [(''Inputs'', JObject [(''data'', v)]),
                    (''GlobalParameters'', JObject [(''method'', JString ''predict'')])], [])"
    unfolding bankmarketing_request_def
    by (simp add: read_simps a b unescape_def del: parse_simps_del)
  then show ?thesis
    by (rule json_parse_I) (simp_all add: bankmarketing_request_def is_ws_def skip_ws_Nil)
qed

section \<open>Reading back what \<open>json.dumps\<close> wrote\<close>

lemma parse_value_number:
  assumes "scan_number t = Some (j, [])" and "stops u"
  shows "parse_value (Suc n) (t @ u) = Some (j, u)"
proof -
  from scan_number_Cons [OF assms(1)] obtain d ds where t: "t = d # ds"
    and d: "is_digit d \<or> d = CHR ''-''" by blast
  have a: "parse_atom t = Some (j, [])"
    using assms(1) d by (auto simp: parse_atom_def t is_digit_def)
  have "parse_atom (t @ u) = Some (j, [] @ u)"
    using a assms(2) by (intro parse_atom_append) simp_all
  moreover have "d \<noteq> CHR 0x22" "d \<noteq> CHR ''[''" "d \<noteq> CHR ''{''"
    using d by (auto simp: is_digit_def)
  ultimately show ?thesis by (simp add: t)
qed

lemma number_text_hd:
  "number_text fr p j \<Longrightarrow> json_dumps fr p \<noteq> [] \<and> \<not> is_ws (hd (json_dumps fr p))"
  using scan_number_Cons [of "json_dumps fr p" "(j, [])"]
  by (auto simp: number_text_def is_ws_def is_digit_def)

lemma dumps_list_hd:
  assumes "list_all2 (number_text fr) ps js" and "ps \<noteq> []"
  shows "dumps_list fr ps @ u \<noteq> [] \<and> \<not> is_ws (hd (dumps_list fr ps @ u))
         \<and> hd (dumps_list fr ps @ u) \<noteq> CHR '']''"
proof -
  from assms obtain p qs j ks where ps: "ps = p # qs" and p: "number_text fr p j"
    by (cases ps; cases js) auto
  from scan_number_Cons [of "json_dumps fr p" "(j, [])"] p
  obtain d ds where t: "json_dumps fr p = d # ds" and d: "is_digit d \<or> d = CHR ''-''"
    by (auto simp: number_text_def)
  have "hd (dumps_list fr ps @ u) = d" using ps t by (cases qs) auto
  moreover have "dumps_list fr ps @ u \<noteq> []" using ps t by (cases qs) auto
  ultimately show ?thesis using d by (auto simp: is_ws_def is_digit_def)
qed

lemma parse_elements_numbers:
  assumes "list_all2 (number_text fr) ps js" and "ps \<noteq> []" and "length ps \<le> n"
  shows "parse_elements (Suc n) (dumps_list fr ps @ CHR '']'' # rest) = Some (js, rest)"
  using assms
proof (induction ps js arbitrary: n rule: list_all2_induct)
  case Nil
  then show ?case by simp
next
  case (Cons p ps j js)
  from Cons.prems obtain n' where n: "n = Suc n'" by (cases n) auto
  have t: "scan_number (json_dumps fr p) = Some (j, [])"
    using Cons.hyps(1) by (simp add: number_text_def)
  show ?case
  proof (cases ps)
    case Nil
    with Cons.hyps have js: "js = []" by simp
    have "parse_value (Suc n') (json_dumps fr p @ CHR '']'' # rest) = Some (j, CHR '']'' # rest)"
      using t by (rule parse_value_number) (simp add: stops_def is_digit_def)
    then show ?thesis
      by (simp add: Nil js n read_simps del: parse_simps_del add: parse_elements.simps(2))
  next
    case (Cons q qs)
    let ?tail = "dumps_list fr ps @ CHR '']'' # rest"
    have v: "parse_value (Suc n') (json_dumps fr p @ CHR '','' # CHR '' '' # ?tail)
        = Some (j, CHR '','' # CHR '' '' # ?tail)"
      using t by (rule parse_value_number) (simp add: stops_def is_digit_def)
    have ne: "ps \<noteq> []" by (simp add: Cons)
    have "length ps \<le> n'" using Cons.prems n by simp
    with Cons.IH ne have ih: "parse_elements (Suc n') ?tail = Some (js, rest)" by simp
    have w: "skip_ws ?tail = ?tail"
      using dumps_list_hd [OF Cons.hyps(2) ne, of "CHR '']'' # rest"]
      by (intro skip_ws_id) auto
    have d: "dumps_list fr (p # ps) @ CHR '']'' # rest
        = json_dumps fr p @ CHR '','' # CHR '' '' # ?tail"
      by (simp add: Cons)
    show ?thesis
      unfolding d n
      by (subst parse_elements.simps(2)) (simp add: v w ih read_simps del: parse_simps_del)
  qed
qed

lemma parse_array_numbers:
  assumes "list_all2 (number_text fr) ps js" and "length ps \<le> n"
  shows "parse_value (Suc (Suc n)) (CHR ''['' # dumps_list fr ps @ CHR '']'' # rest)
         = Some (JArray js, rest)"
proof (cases ps)
  case Nil
  with assms show ?thesis by (simp add: read_simps)
next
  case (Cons p qs)
  then have ne: "ps \<noteq> []" by simp
  let ?body = "dumps_list fr ps @ CHR '']'' # rest"
  have h: "?body \<noteq> [] \<and> \<not> is_ws (hd ?body) \<and> hd ?body \<noteq> CHR '']''"
    using assms(1) ne by (rule dumps_list_hd)
  then obtain c r where b: "?body = c # r" by (cases ?body) auto
  with h have c: "\<not> is_ws c" "c \<noteq> CHR '']''" by auto
  have "parse_elements (Suc n) ?body = Some (js, rest)"
    using assms(1) ne assms(2) by (rule parse_elements_numbers)
  then have e: "parse_elements (Suc n) (c # r) = Some (js, rest)" by (simp add: b)
  have "parse_value (Suc (Suc n)) (CHR ''['' # c # r) = Some (JArray js, rest)"
    by (subst parse_value.simps(2)) (simp add: skip_ws_Cons c e del: parse_simps_del)
  then show ?thesis by (simp add: b)
qed

lemma dumps_list_length:
  "list_all2 (number_text fr) ps js \<Longrightarrow> length ps \<le> length (dumps_list fr ps)"
proof (induction ps js rule: list_all2_induct)
  case Nil
  then show ?case by simp
next
  case (Cons p ps j js)
  have "json_dumps fr p \<noteq> []" using number_text_hd [OF Cons.hyps(1)] by simp
  then have "1 \<le> length (json_dumps fr p)" by (cases "json_dumps fr p") auto
  with Cons.IH show ?case by (cases ps) auto
qed

lemma int_number_text: "number_text fr (PInt (int c)) (JInt (int c))"
  by (simp add: number_text_def str_int_def scan_number_str_nat)

lemma ints_number_text:
  "list_all2 (number_text fr) (map (\<lambda>c. PInt (int c)) cs) (map (\<lambda>c. JInt (int c)) cs)"
  by (induction cs) (simp_all add: int_number_text)

lemma floats_number_text:
  "\<forall>x\<in>set xs. scan_number (fr x) = Some (JFloat (fr x), [])
   \<Longrightarrow> list_all2 (number_text fr) (map PFloat xs) (map (\<lambda>x. JFloat (fr x)) xs)"
  by (induction xs) (simp_all add: number_text_def)

lemma py_of_ints: "py_of_list pf (map (\<lambda>c. JInt (int c)) cs) = Some (map (\<lambda>c. PInt (int c)) cs)"
  by (induction cs) simp_all

lemma py_of_floats:
  "\<forall>x\<in>set xs. pf (fr x) = Some x
   \<Longrightarrow> py_of_list pf (map (\<lambda>x. JFloat (fr x)) xs) = Some (map PFloat xs)"
  by (induction xs) simp_all

lemma json_parse_scores:
  assumes "\<forall>x\<in>set xs. scan_number (fr x) = Some (JFloat (fr x), [])"
    and "length xs = length cs"
  shows "json_parse (json_dumps fr
           (PDict [(''class'', PList (map (\<lambda>c. PInt (int c)) cs)),
                   (''confidence'', PList (map PFloat xs))]))
       = Some (JObject [(''class'', JArray (map (\<lambda>c. JInt (int c)) cs)),
                        (''confidence'', JArray (map (\<lambda>x. JFloat (fr x)) xs))])"
proof -
  let ?ps = "map (\<lambda>c. PInt (int c)) cs" and ?qs = "map PFloat xs"
  let ?n = "length cs"
  note a = ints_number_text [of fr cs]
  note b = floats_number_text [OF assms(1)]
  have pa: "\<And>rest. parse_value (Suc (Suc ?n)) (CHR ''['' # dumps_list fr ?ps @ CHR '']'' # rest)
      = Some (JArray (map (\<lambda>c. JInt (int c)) cs), rest)"
    using a by (rule parse_array_numbers) simp
  have pb: "\<And>rest. parse_value (Suc (Suc ?n)) (CHR ''['' # dumps_list fr ?qs @ CHR '']'' # rest)
      = Some (JArray (map (\<lambda>x. JFloat (fr x)) xs), rest)"
    using b by (rule parse_array_numbers) (simp add: assms(2))
  let ?s = "json_dumps fr (PDict [(''class'', PList ?ps), (''confidence'', PList ?qs)])"
  have p: "parse_value (Suc (Suc (Suc (Suc (Suc ?n))))) ?s
      = Some (JObject [(''class'', JArray (map (\<lambda>c. JInt (int c)) cs)),
                       (''confidence'', JArray (map (\<lambda>x. JFloat (fr x)) xs))], [])"
    apply (simp add: json_string_def json_escape_def read_simps del: parse_simps_del)
    apply (subst parse_value_mono [OF pa, of "Suc (Suc (Suc ?n))"], simp)
    apply (simp add: read_simps pb del: parse_simps_del)
    done
  have "length cs \<le> length (dumps_list fr ?ps)" using dumps_list_length [OF a] by simp
  then have l: "Suc (Suc (Suc (Suc (Suc ?n)))) \<le> length ?s"
    by (simp add: json_string_def json_escape_def)
  from p _ l show ?thesis
    by (rule json_parse_I) (simp_all add: skip_ws_Nil is_ws_def)
qed

lemma sample_request_parse:
  "json_parse sample_request = Some (JObject
    [(''input_data'',
      JObject
       [(''columns'',
         JArray
          [JInt 0, JInt 1, JInt 2, JInt 3, JInt 4, JInt 5, JInt 6, JInt 7,
           JInt 8, JInt 9, JInt 10, JInt 11, JInt 12, JInt 13, JInt 14,
           JInt 15, JInt 16, JInt 17, JInt 18, JInt 19, JInt 20, JInt 21,
           JInt 22]),
        (''index'', JArray [JInt 0, JInt 1]),
        (''data'',
         JArray
          [JArray
            [JInt 20000, JInt 2, JInt 2, JInt 1, JInt 24, JInt 2, JInt 2,
             JInt (- 1), JInt (- 1), JInt (- 2), JInt (- 2), JInt 3913,
             JInt 3102, JInt 689, JInt 0, JInt 0, JInt 0, JInt 0, JInt 689,
             JInt 0, JInt 0, JInt 0, JInt 0],
           JArray
            [JInt 10, JInt 9, JInt 8, JInt 7, JInt 6, JInt 5, JInt 4,
             JInt 3, JInt 2, JInt 1, JInt 10, JInt 9, JInt 8, JInt 7,
             JInt 6, JInt 5, JInt 4, JInt 3, JInt 2, JInt 1, JInt 10,
             JInt 9, JInt 8]])])])"
  by code_simp

text \<open>
  C8. The text written to \<open>sample-request.json\<close> is a JSON object whose only key is
  \<open>input_data\<close>, holding \<open>columns\<close>, \<open>index\<close> and \<open>data\<close>, the last a list of two rows.
  Whenever the text that \<open>to_json\<close> returns is JSON, the request string of the second
  notebook is a JSON object with the keys \<open>Inputs\<close>, holding that document under
  \<open>data\<close>, and \<open>GlobalParameters\<close>, holding \<open>method\<close> with the value \<open>predict\<close>.
\<close>

theorem request_payload_shapes:
  assumes "json_parse test_data_json = Some records"
  shows "json_parse sample_request = Some (JObject
    [(''input_data'',
      JObject
       [(''columns'',
         JArray
          [JInt 0, JInt 1, JInt 2, JInt 3, JInt 4, JInt 5, JInt 6, JInt 7,
           JInt 8, JInt 9, JInt 10, JInt 11, JInt 12, JInt 13, JInt 14,
           JInt 15, JInt 16, JInt 17, JInt 18, JInt 19, JInt 20, JInt 21,
           JInt 22]),
        (''index'', JArray [JInt 0, JInt 1]),
        (''data'',
         JArray
          [JArray
            [JInt 20000, JInt 2, JInt 2, JInt 1, JInt 24, JInt 2, JInt 2,
             JInt (- 1), JInt (- 1), JInt (- 2), JInt (- 2), JInt 3913,
             JInt 3102, JInt 689, JInt 0, JInt 0, JInt 0, JInt 0, JInt 689,
             JInt 0, JInt 0, JInt 0, JInt 0],
           JArray
            [JInt 10, JInt 9, JInt 8, JInt 7, JInt 6, JInt 5, JInt 4,
             JInt 3, JInt 2, JInt 1, JInt 10, JInt 9, JInt 8, JInt 7,
             JInt 6, JInt 5, JInt 4, JInt 3, JInt 2, JInt 1, JInt 10,
             JInt 9, JInt 8]])])])
   \<and> json_parse (bankmarketing_request test_data_json) =
       Some (JObject [(''Inputs'', JObject [(''data'', records)]),
                      (''GlobalParameters'', JObject [(''method'', JString ''predict'')])])"
  using sample_request_parse bankmarketing_request_parse [OF assms] by (rule conjI)

theorem request_payload_shapes_witness:
  "json_parse ex_test_data_json =
     Some (JArray [JObject [(''age'', JInt 57), (''job'', JString ''technician'')]])
   \<and> json_parse (bankmarketing_request ex_test_data_json) =
       Some (JObject
         [(''Inputs'',
           JObject [(''data'',
             JArray [JObject [(''age'', JInt 57), (''job'', JString ''technician'')]])]),
          (''GlobalParameters'', JObject [(''method'', JString ''predict'')])])"
proof -
  have h: "json_parse ex_test_data_json =
     Some (JArray [JObject [(''age'', JInt 57), (''job'', JString ''technician'')]])"
    by code_simp
  from request_payload_shapes [OF h] h show ?thesis by blast
qed

lemma scores_document:
  assumes "\<forall>x\<in>set xs. scan_number (fr x) = Some (JFloat (fr x), []) \<and> pf (fr x) = Some x"
    and "length xs = length cs"
  shows "json_loads pf (json_dumps fr
           (PDict [(''class'', PList (map (\<lambda>c. PInt (int c)) cs)),
                   (''confidence'', PList (map PFloat xs))]))
       = Some (PDict [(''class'', PList (map (\<lambda>c. PInt (int c)) cs)),
                      (''confidence'', PList (map PFloat xs))])"
proof -
  have "json_parse (json_dumps fr
           (PDict [(''class'', PList (map (\<lambda>c. PInt (int c)) cs)),
                   (''confidence'', PList (map PFloat xs))]))
       = Some (JObject [(''class'', JArray (map (\<lambda>c. JInt (int c)) cs)),
                        (''confidence'', JArray (map (\<lambda>x. JFloat (fr x)) xs))])"
    using assms by (intro json_parse_scores) auto
  moreover have "py_of_list pf (map (\<lambda>x. JFloat (fr x)) xs) = Some (map PFloat xs)"
    using assms(1) by (intro py_of_floats) auto
  ultimately show ?thesis
    by (simp add: json_loads_def py_of_ints)
qed

text \<open>
  C9. When \<open>predict_proba\<close> returns a matrix: if the matrix has a class column, \<open>run\<close>
  returns a string and \<open>ModelWrapper.predict\<close> a frame, and \<open>json.loads\<close> of the string
  is the dictionary of the frame's columns, \<open>class\<close> and \<open>confidence\<close>, with the same
  lists; if it has none, both raise the same exception. The floats are read back
  because \<open>float.__repr__\<close> writes a JSON number from which \<open>float\<close> gets the same float.
\<close>

theorem run_predict_same_scores:
  assumes "MODEL g = Some m" and "model self = Some m"
    and "predict_proba xgb m batch = (Inr P, m')" and "wf_ndarray P"
    and "\<forall>r\<in>set (rows P). \<forall>x\<in>set r.
           scan_number (float_repr py x) = Some (JFloat (float_repr py x), [])
           \<and> py_float (float_repr py x) = Some x"
  shows "(0 < ncols P \<longrightarrow>
          (\<exists>s df. fst (run xgb py g batch) = Inr (Str s)
             \<and> fst (predict xgb self context batch) = Inr (Frame df)
             \<and> column_names df = [''class'', ''confidence'']
             \<and> json_loads py_float s =
                 Some (PDict (map (\<lambda>(name, cells). (name, PList cells)) (columns df)))))
   \<and> (ncols P = 0 \<longrightarrow>
          (\<exists>e. fst (run xgb py g batch) = Inl e
             \<and> fst (predict xgb self context batch) = Inl e))"
proof (intro conjI impI)
  assume k: "0 < ncols P"
  let ?cs = "map argmax_row (rows P)" and ?xs = "map max_row (rows P)"
  let ?d = "PDict [(''class'', PList (map (\<lambda>c. PInt (int c)) ?cs)),
                   (''confidence'', PList (map PFloat ?xs))]"
  have r: "fst (run xgb py g batch) = Inr (Str (json_dumps (float_repr py) ?d))"
    using run_ok [OF assms(1,3) k, of py] by (simp add: comp_def)
  have p: "fst (predict xgb self context batch) =
      Inr (Frame \<lparr>index_len = length (rows P),
                  columns = [(''class'', map (\<lambda>c. PInt (int c)) ?cs),
                             (''confidence'', map PFloat ?xs)]\<rparr>)"
    using predict_ok [OF assms(2,3) k, of "context"] by (simp add: comp_def)
  have "\<forall>x\<in>set ?xs. scan_number (float_repr py x) = Some (JFloat (float_repr py x), [])
           \<and> py_float (float_repr py x) = Some x"
  proof
    fix x assume "x \<in> set ?xs"
    then obtain row where row: "row \<in> set (rows P)" and x: "x = max_row row" by auto
    from row assms(4) k have "row \<noteq> []" by (auto simp: wf_ndarray_def list_all_iff)
    then have "x \<in> set row" unfolding x by (rule max_row_in)
    with row assms(5) show "scan_number (float_repr py x) = Some (JFloat (float_repr py x), [])
           \<and> py_float (float_repr py x) = Some x" by blast
  qed
  then have "json_loads py_float (json_dumps (float_repr py) ?d) = Some ?d"
    by (rule scores_document) simp
  with r p show "\<exists>s df. fst (run xgb py g batch) = Inr (Str s)
             \<and> fst (predict xgb self context batch) = Inr (Frame df)
             \<and> column_names df = [''class'', ''confidence'']
             \<and> json_loads py_float s =
                 Some (PDict (map (\<lambda>(name, cells). (name, PList cells)) (columns df)))"
    by (simp add: column_names_def)
next
  assume "ncols P = 0"
  with assms(1,2,3) show "\<exists>e. fst (run xgb py g batch) = Inl e
             \<and> fst (predict xgb self context batch) = Inl e"
    by (simp add: run_def run_try_def predict_def argmax_axis1_def isinstance_def)
qed

theorem run_predict_same_scores_witness:
  "MODEL \<lparr>MODEL = Some (), logging = []\<rparr> = Some ()
   \<and> model \<lparr>model = Some ()\<rparr> = Some ()
   \<and> predict_proba ex_xgb () ex_batch = (Inr ex_proba, ())
   \<and> wf_ndarray ex_proba
   \<and> 0 < ncols ex_proba
   \<and> (\<exists>s df. fst (run ex_xgb ex_py \<lparr>MODEL = Some (), logging = []\<rparr> ex_batch) = Inr (Str s)
             \<and> fst (predict ex_xgb \<lparr>model = Some ()\<rparr> \<lparr>artifacts = []\<rparr> ex_batch) = Inr (Frame df)
             \<and> column_names df = [''class'', ''confidence'']
             \<and> json_loads ex_float s =
                 Some (PDict (map (\<lambda>(name, cells). (name, PList cells)) (columns df))))"
proof -
  have h1: "MODEL \<lparr>MODEL = Some (), logging = []\<rparr> = Some ()" by simp
  have h2: "model \<lparr>model = Some ()\<rparr> = Some ()" by simp
  have h3: "predict_proba ex_xgb () ex_batch = (Inr ex_proba, ())" by (simp add: ex_xgb_def)
  have h4: "wf_ndarray ex_proba" by (simp add: wf_ndarray_def ex_proba_def)
  have s: "scan_number ''0.25'' = Some (JFloat ''0.25'', [])"
    "scan_number ''0.75'' = Some (JFloat ''0.75'', [])"
    "scan_number ''0.5'' = Some (JFloat ''0.5'', [])"
    by code_simp+
  have h5: "\<forall>r\<in>set (rows ex_proba). \<forall>x\<in>set r.
           scan_number (float_repr ex_py x) = Some (JFloat (float_repr ex_py x), [])
           \<and> ex_float (float_repr ex_py x) = Some x"
    by (simp add: ex_proba_def ex_py_def ex_float_def s)
  have k: "0 < ncols ex_proba" by (simp add: ex_proba_def)
  from run_predict_same_scores [OF h1 h2 h3 h4 h5, of "\<lparr>artifacts = []\<rparr>"] k
  have c: "\<exists>s df. fst (run ex_xgb ex_py \<lparr>MODEL = Some (), logging = []\<rparr> ex_batch) = Inr (Str s)
             \<and> fst (predict ex_xgb \<lparr>model = Some ()\<rparr> \<lparr>artifacts = []\<rparr> ex_batch) = Inr (Frame df)
             \<and> column_names df = [''class'', ''confidence'']
             \<and> json_loads ex_float s =
                 Some (PDict (map (\<lambda>(name, cells). (name, PList cells)) (columns df)))"
    by blast
  show ?thesis by (intro conjI h1 h2 h3 h4 k c)
qed

end
